theory Spec2Isabelle
  imports Main "HOL-Library.Char_ord" "HOL-Library.List_Lexorder"
begin

section \<open>Results of Go calls\<close>

text \<open>
  A Go \<open>error\<close> value is opaque to the code under study: it comes out of a collaborator
  (the hasher, the image resolver, the wildcard expander) and is handed on. The only error
  the code builds itself is the wrapping done by \<open>Add\<close>:
  \<^verbatim>\<open>fmt.Errorf("Error creating hash for %s: %w", s, err)\<close>.
  A run-time panic (an index out of range) is not an error value; it is kept apart as
  \<open>Panic\<close>.
\<close>

datatype error = ExternalError string | ErrorCreatingHash string error

datatype 'a outcome = Panic | Return 'a

section \<open>The layered map (pkg/snapshot/layered\_map.go)\<close>

text \<open>
  The struct \<open>LayeredMap\<close>. A Go \<open>map[string]string\<close> is a partial function, a
  \<open>map[string]struct{}\<close> is a set of keys. The two hashers are closures that read the
  file system; the field holds what the closure computes at the moment of the call.
\<close>

type_synonym hashfn = "string \<Rightarrow> error + string"

record LayeredMap =
  layers :: "(string \<rightharpoonup> string) list"
  whiteouts :: "string set list"
  currentImage :: "string \<rightharpoonup> string"
  isCurrentImageValid :: bool
  layerHashCache :: "string \<rightharpoonup> string"
  hasher :: hashfn
  cacheHasher :: hashfn

text \<open>\<open>NewLayeredMap\<close>: the slices start nil (empty), the validity bit starts false.\<close>

definition NewLayeredMap :: "hashfn \<Rightarrow> hashfn \<Rightarrow> LayeredMap" where
  "NewLayeredMap h c =
     \<lparr>layers = [], whiteouts = [], currentImage = Map.empty, isCurrentImageValid = False,
      layerHashCache = Map.empty, hasher = h, cacheHasher = c\<rparr>"

text \<open>
  The body of the loop of \<open>UpdateCurrentImage\<close>: every entry of \<open>addedFiles\<close> is
  stored into the image, then every key of \<open>deletedFiles\<close> is deleted from it.
\<close>

definition applyLayer ::
  "(string \<rightharpoonup> string) \<Rightarrow> string set \<Rightarrow> (string \<rightharpoonup> string) \<Rightarrow> (string \<rightharpoonup> string)" where
  "applyLayer addedFiles deletedFiles img = (img ++ addedFiles) |` (- deletedFiles)"

text \<open>
  The loop \<^verbatim>\<open>for i := 0; i < len(l.layers); i++\<close>. It reads \<open>l.layers[i]\<close> and
  \<open>l.whiteouts[i]\<close>; the second read panics when \<open>whiteouts\<close> is the shorter slice.
\<close>

function flattenLayers ::
  "nat \<Rightarrow> (string \<rightharpoonup> string) list \<Rightarrow> string set list \<Rightarrow> (string \<rightharpoonup> string)
     \<Rightarrow> (string \<rightharpoonup> string) outcome" where
  "flattenLayers i ls ws img =
     (if i < length ls
      then (if i < length ws
            then flattenLayers (Suc i) ls ws (applyLayer (ls ! i) (ws ! i) img)
            else Panic)
      else Return img)"
  by pat_completeness auto
termination
  by (relation "measure (\<lambda>(i, ls, ws, img). length ls - i)") auto

declare flattenLayers.simps [simp del]

definition UpdateCurrentImage :: "LayeredMap \<Rightarrow> LayeredMap outcome" where
  "UpdateCurrentImage l =
     (if isCurrentImageValid l then Return l
      else (case flattenLayers 0 (layers l) (whiteouts l) Map.empty of
              Panic \<Rightarrow> Panic
            | Return img \<Rightarrow> Return (l\<lparr>currentImage := img, isCurrentImageValid := True\<rparr>)))"

definition Snapshot :: "LayeredMap \<Rightarrow> LayeredMap outcome" where
  "Snapshot l =
     (case UpdateCurrentImage l of
        Panic \<Rightarrow> Panic
      | Return l1 \<Rightarrow>
          Return (l1\<lparr>whiteouts := whiteouts l1 @ [{}],
                     layers := layers l1 @ [Map.empty],
                     layerHashCache := Map.empty\<rparr>))"

text \<open>
  \<open>Key\<close> encodes \<open>l.layers\<close> as JSON and digests the buffer. The encoder (Go's
  \<open>encoding/json\<close>) and \<open>util.SHA256\<close> are not part of the file; they are parameters.
\<close>

definition Key ::
  "((string \<rightharpoonup> string) list \<Rightarrow> error + 'b) \<Rightarrow> ('b \<Rightarrow> error + string) \<Rightarrow> LayeredMap
     \<Rightarrow> error + string" where
  "Key Encode SHA256 l =
     (case Encode (layers l) of Inl err \<Rightarrow> Inl err | Inr c \<Rightarrow> SHA256 c)"

text \<open>
  \<open>Get\<close>: the loop \<^verbatim>\<open>for i := len(l.layers) - 1; i >= 0; i--\<close>. The counter of
  \<open>GetLoop\<close> is \<open>i + 1\<close>, so that \<open>0\<close> is the exit of the loop.
\<close>

fun GetLoop :: "nat \<Rightarrow> (string \<rightharpoonup> string) list \<Rightarrow> string \<Rightarrow> string \<times> bool" where
  "GetLoop 0 ls s = ([], False)"
| "GetLoop (Suc i) ls s =
     (case (ls ! i) s of Some v \<Rightarrow> (v, True) | None \<Rightarrow> GetLoop i ls s)"

definition Get :: "string \<Rightarrow> LayeredMap \<Rightarrow> string \<times> bool" where
  "Get s l = GetLoop (length (layers l)) (layers l) s"

definition GetCurrentPaths :: "LayeredMap \<Rightarrow> (string set \<times> LayeredMap) outcome" where
  "GetCurrentPaths l =
     (case UpdateCurrentImage l of
        Panic \<Rightarrow> Panic
      | Return l1 \<Rightarrow> Return (dom (currentImage l1), l1))"

text \<open>
  \<open>AddWhiteout\<close> and \<open>Add\<close> index the last element of the slice; with an empty slice
  the index is \<open>-1\<close> and the access panics. Both clear the validity bit first.
\<close>

definition AddWhiteout :: "string \<Rightarrow> LayeredMap \<Rightarrow> (error option \<times> LayeredMap) outcome" where
  "AddWhiteout s l =
     (let l1 = l\<lparr>isCurrentImageValid := False\<rparr> in
      if whiteouts l1 = [] then Panic
      else Return (None,
             l1\<lparr>whiteouts := (whiteouts l1)[length (whiteouts l1) - 1 :=
                                 insert s (last (whiteouts l1))]\<rparr>))"

text \<open>The closure inside \<open>Add\<close>: the cached hash when there is one, the hasher otherwise.\<close>

definition cachedHash :: "LayeredMap \<Rightarrow> string \<Rightarrow> error + string" where
  "cachedHash l s = (case layerHashCache l s of Some v \<Rightarrow> Inr v | None \<Rightarrow> hasher l s)"

definition Add :: "string \<Rightarrow> LayeredMap \<Rightarrow> (error option \<times> LayeredMap) outcome" where
  "Add s l =
     (let l1 = l\<lparr>isCurrentImageValid := False\<rparr> in
      case cachedHash l1 s of
        Inl err \<Rightarrow> Return (Some (ErrorCreatingHash s err), l1)
      | Inr newV \<Rightarrow>
          if layers l1 = [] then Panic
          else Return (None,
                 l1\<lparr>layers := (layers l1)[length (layers l1) - 1 :=
                                  (last (layers l1))(s \<mapsto> newV)]\<rparr>))"

text \<open>
  \<open>CheckFileChange\<close> reads the field \<open>currentImage\<close> as it stands; it does not call
  \<open>UpdateCurrentImage\<close>. (The timing calls have no effect on the result.)
\<close>

definition CheckFileChange :: "string \<Rightarrow> LayeredMap \<Rightarrow> (error + bool) \<times> LayeredMap" where
  "CheckFileChange s l =
     (case hasher l s of
        Inl err \<Rightarrow> (Inl err, l)
      | Inr newV \<Rightarrow>
          (let l1 = l\<lparr>layerHashCache := (layerHashCache l)(s \<mapsto> newV)\<rparr> in
           case currentImage l1 s of
             Some oldV \<Rightarrow> if newV = oldV then (Inr False, l1) else (Inr True, l1)
           | None \<Rightarrow> (Inr True, l1)))"

subsection \<open>Histories of calls\<close>

text \<open>
  A build drives one \<open>LayeredMap\<close> through a sequence of calls. Between two calls the
  file system may change, which changes what the hasher closure returns: \<open>FsChange\<close>.
  \<open>Get\<close> and \<open>Key\<close> do not write to the struct and need no step of their own.
  A panic ends the history.
\<close>

datatype op =
    OpSnapshot
  | OpAdd string
  | OpAddWhiteout string
  | OpCheckFileChange string
  | OpGetCurrentPaths
  | OpUpdateCurrentImage
  | FsChange hashfn

fun step :: "op \<Rightarrow> LayeredMap \<Rightarrow> LayeredMap outcome" where
  "step OpSnapshot l = Snapshot l"
| "step (OpAdd s) l = (case Add s l of Panic \<Rightarrow> Panic | Return (e, l') \<Rightarrow> Return l')"
| "step (OpAddWhiteout s) l =
     (case AddWhiteout s l of Panic \<Rightarrow> Panic | Return (e, l') \<Rightarrow> Return l')"
| "step (OpCheckFileChange s) l = Return (snd (CheckFileChange s l))"
| "step OpGetCurrentPaths l =
     (case GetCurrentPaths l of Panic \<Rightarrow> Panic | Return (ps, l') \<Rightarrow> Return l')"
| "step OpUpdateCurrentImage l = UpdateCurrentImage l"
| "step (FsChange h) l = Return (l\<lparr>hasher := h\<rparr>)"

fun run :: "op list \<Rightarrow> LayeredMap \<Rightarrow> LayeredMap outcome" where
  "run [] l = Return l"
| "run (x # xs) l = (case step x l of Panic \<Rightarrow> Panic | Return l' \<Rightarrow> run xs l')"

subsection \<open>The specification's view of a layer stack\<close>

text \<open>
  The specification speaks of a stack of layers, each a pair of an \<open>added\<close> mapping and
  a \<open>deleted\<close> set, and of the flattened image: start from the empty mapping, go through
  the layers from the earliest to the latest, insert each added entry (overwriting), then
  remove each deleted path.
\<close>

record Layer =
  added :: "string \<rightharpoonup> string"
  deleted :: "string set"

definition layer_stack :: "LayeredMap \<Rightarrow> Layer list" where
  "layer_stack l = map (\<lambda>(a, d). \<lparr>added = a, deleted = d\<rparr>) (zip (layers l) (whiteouts l))"

definition spec_apply :: "(string \<rightharpoonup> string) \<Rightarrow> Layer \<Rightarrow> (string \<rightharpoonup> string)" where
  "spec_apply img L =
     (\<lambda>p. if p \<in> deleted L then None
          else (case added L p of Some h \<Rightarrow> Some h | None \<Rightarrow> img p))"

definition spec_flatten :: "Layer list \<Rightarrow> (string \<rightharpoonup> string)" where
  "spec_flatten Ls = foldl spec_apply Map.empty Ls"

text \<open>
  The layers of two slices side by side, and what every reachable \<open>LayeredMap\<close>
  satisfies: the two slices are equally long, and a cache marked valid holds the
  flattened image.
\<close>

definition mkLayers :: "(string \<rightharpoonup> string) list \<Rightarrow> string set list \<Rightarrow> Layer list" where
  "mkLayers ls ws = map (\<lambda>(a, d). \<lparr>added = a, deleted = d\<rparr>) (zip ls ws)"

definition lm_inv :: "LayeredMap \<Rightarrow> bool" where
  "lm_inv l \<longleftrightarrow> length (whiteouts l) = length (layers l) \<and>
     (isCurrentImageValid l \<longrightarrow> currentImage l = spec_flatten (layer_stack l))"

section \<open>Stages and their commands (pkg/dockerfile)\<close>

text \<open>
  \<open>strconv.Itoa\<close>: the decimal digits of an \<open>int\<close>, with a minus sign below zero.
\<close>

fun digitsOf :: "nat \<Rightarrow> string" where
  "digitsOf n =
     (if n < 10 then [''0123456789'' ! n]
      else digitsOf (n div 10) @ [''0123456789'' ! (n mod 10)])"

declare digitsOf.simps [simp del]

definition Itoa :: "int \<Rightarrow> string" where
  "Itoa i = (if i < 0 then CHR ''-'' # digitsOf (nat (- i)) else digitsOf (nat i))"

text \<open>
  The commands the two functions look at, with the fields they read: \<open>EnvCommand.Env\<close>,
  \<open>ArgCommand.Key\<close> and \<open>.Value\<close> (a \<open>*string\<close>), \<open>CopyCommand.From\<close> and
  \<open>.SourcesAndDest\<close>. Every other command falls through both type switches.
\<close>

datatype command =
    EnvCommand "(string \<times> string) list"
  | ArgCommand string "string option"
  | CopyCommand string "string list"
  | OtherCommand string

record Stage =
  Name :: string
  BaseName :: string
  Commands :: "command list"

subsection \<open>ResolveStages\<close>

text \<open>The type switch inside the loop over the commands of one stage.\<close>

fun resolveCommand :: "(string \<rightharpoonup> string) \<Rightarrow> command \<Rightarrow> command" where
  "resolveCommand nameToIndex (CopyCommand from sd) =
     (if from \<noteq> []
      then (case nameToIndex from of
              Some val \<Rightarrow> CopyCommand val sd
            | None \<Rightarrow> CopyCommand from sd)
      else CopyCommand from sd)"
| "resolveCommand nameToIndex cmd = cmd"

text \<open>
  The loop \<^verbatim>\<open>for i, stage := range stages\<close>: one pass, in which the name of stage
  \<open>i\<close> enters \<open>nameToIndex\<close> before the commands of stage \<open>i\<close> are rewritten. The
  Go code rewrites the commands in place; the model returns the rewritten stages.
\<close>

fun resolveStagesFrom :: "nat \<Rightarrow> (string \<rightharpoonup> string) \<Rightarrow> Stage list \<Rightarrow> Stage list" where
  "resolveStagesFrom i nameToIndex [] = []"
| "resolveStagesFrom i nameToIndex (stage # rest) =
     (let index = Itoa (int i);
          nameToIndex' = (if Name stage \<noteq> index then nameToIndex(Name stage \<mapsto> index)
                          else nameToIndex)
      in stage\<lparr>Commands := map (resolveCommand nameToIndex') (Commands stage)\<rparr>
           # resolveStagesFrom (Suc i) nameToIndex' rest)"

definition ResolveStages :: "Stage list \<Rightarrow> Stage list" where
  "ResolveStages stages = resolveStagesFrom 0 Map.empty stages"

subsection \<open>Dependencies\<close>

text \<open>
  \<open>Dependencies\<close> calls into packages that are not part of the file: the constants, the
  file-system and path helpers, the image sources, the image configuration, the build
  arguments and the two resolvers of \<open>util\<close>. They are the fields of one record of
  collaborators; images, configurations, build arguments, references and authenticators
  are type parameters. \<open>Resolve\<close> stands for
  \<^verbatim>\<open>authn.DefaultKeychain.Resolve(ref.Context().Registry)\<close> and \<open>remoteImage\<close> for
  \<^verbatim>\<open>remote.Image(ref, remote.WithAuth(auth), ...)\<close>.
\<close>

record ('img, 'cfg, 'ba, 'ref, 'auth) collaborators =
  NoBaseImage :: string
  KanikoIntermediateStagesDir :: string
  StageTar :: string
  RootDir :: string
  emptyImage :: 'img
  FilepathExists :: "string \<Rightarrow> bool"
  Join :: "string \<Rightarrow> string \<Rightarrow> string"
  IsAbs :: "string \<Rightarrow> bool"
  ImageFromPath :: "string \<Rightarrow> error + 'img"
  ParseReference :: "string \<Rightarrow> error + 'ref"
  Resolve :: "'ref \<Rightarrow> error + 'auth"
  remoteImage :: "'ref \<Rightarrow> 'auth \<Rightarrow> error + 'img"
  ConfigFile :: "'img \<Rightarrow> error + 'cfg"
  ConfigEnv :: "'cfg \<Rightarrow> string list"
  ReplacementEnvs :: "'ba \<Rightarrow> string list \<Rightarrow> string list"
  UpdateConfigEnv :: "(string \<times> string) list \<Rightarrow> 'cfg \<Rightarrow> string list \<Rightarrow> error + 'cfg"
  AddArg :: "string \<Rightarrow> string option \<Rightarrow> 'ba \<Rightarrow> 'ba"
  ResolveEnvironmentReplacementList :: "string list \<Rightarrow> string list \<Rightarrow> bool \<Rightarrow> error + string list"
  ResolveSources :: "string list \<Rightarrow> string \<Rightarrow> error + string list"

text \<open>The four-way choice of the source image of a later stage.\<close>

definition selectSourceImage ::
  "('img, 'cfg, 'ba, 'ref, 'auth) collaborators \<Rightarrow> string \<Rightarrow> string \<Rightarrow> 'img \<Rightarrow> error + 'img" where
  "selectSourceImage E baseName currentName stageImage =
     (if baseName = NoBaseImage E then Inr (emptyImage E)
      else if baseName = currentName then Inr stageImage
      else if FilepathExists E (Join E (KanikoIntermediateStagesDir E) baseName)
      then ImageFromPath E
             (Join E (Join E (KanikoIntermediateStagesDir E) baseName) (StageTar E))
      else (case ParseReference E baseName of
              Inl err \<Rightarrow> Inl err
            | Inr ref \<Rightarrow>
                (case Resolve E ref of
                   Inl err \<Rightarrow> Inl err
                 | Inr auth \<Rightarrow> remoteImage E ref auth)))"

text \<open>The loop that makes the resolved sources absolute.\<close>

definition absolutize ::
  "('img, 'cfg, 'ba, 'ref, 'auth) collaborators \<Rightarrow> string list \<Rightarrow> string list" where
  "absolutize E srcs = map (\<lambda>src. if \<not> IsAbs E src then Join E (RootDir E) src else src) srcs"

text \<open>
  The loop over the commands of one later stage. It threads the build arguments (which
  \<open>AddArg\<close> changes through the pointer), the image configuration (which
  \<open>UpdateConfigEnv\<close> changes) and the list of dependencies; an error ends it.
\<close>

fun depsCommands ::
  "('img, 'cfg, 'ba, 'ref, 'auth) collaborators \<Rightarrow> int \<Rightarrow> command list \<Rightarrow> 'ba \<Rightarrow> 'cfg
     \<Rightarrow> string list \<Rightarrow> (error + string list) \<times> 'ba" where
  "depsCommands E index [] ba imageConfig dependencies = (Inr dependencies, ba)"
| "depsCommands E index (EnvCommand env # cmds) ba imageConfig dependencies =
     (case UpdateConfigEnv E env imageConfig (ReplacementEnvs E ba (ConfigEnv E imageConfig)) of
        Inl err \<Rightarrow> (Inl err, ba)
      | Inr imageConfig' \<Rightarrow> depsCommands E index cmds ba imageConfig' dependencies)"
| "depsCommands E index (ArgCommand k v # cmds) ba imageConfig dependencies =
     depsCommands E index cmds (AddArg E k v ba) imageConfig dependencies"
| "depsCommands E index (CopyCommand from sd # cmds) ba imageConfig dependencies =
     (if from \<noteq> Itoa index then depsCommands E index cmds ba imageConfig dependencies
      else (case ResolveEnvironmentReplacementList E sd
                   (ReplacementEnvs E ba (ConfigEnv E imageConfig)) True of
              Inl err \<Rightarrow> (Inl err, ba)
            | Inr resolvedEnvs \<Rightarrow>
                (case ResolveSources E resolvedEnvs (RootDir E) of
                   Inl err \<Rightarrow> (Inl err, ba)
                 | Inr srcs \<Rightarrow>
                     depsCommands E index cmds ba imageConfig
                       (dependencies @ absolutize E srcs))))"
| "depsCommands E index (OtherCommand c # cmds) ba imageConfig dependencies =
     depsCommands E index cmds ba imageConfig dependencies"

text \<open>
  The loop \<^verbatim>\<open>for stageIndex, stage := range stages\<close>. The log line reads
  \<open>stages[index].Name\<close> for every later stage, which panics when \<open>index\<close> is out of
  range. The parameter \<open>image\<close> of the Go function is \<open>stageImage\<close> here.
\<close>

fun depsStages ::
  "('img, 'cfg, 'ba, 'ref, 'auth) collaborators \<Rightarrow> int \<Rightarrow> Stage list \<Rightarrow> 'img \<Rightarrow> nat
     \<Rightarrow> Stage list \<Rightarrow> 'ba \<Rightarrow> string list \<Rightarrow> ((error + string list) \<times> 'ba) outcome" where
  "depsStages E index stages stageImage stageIndex [] ba dependencies =
     Return (Inr dependencies, ba)"
| "depsStages E index stages stageImage stageIndex (stage # rest) ba dependencies =
     (if int stageIndex \<le> index
      then depsStages E index stages stageImage (Suc stageIndex) rest ba dependencies
      else if index < 0 \<or> length stages \<le> nat index then Panic
      else (case selectSourceImage E (BaseName stage) (Name (stages ! nat index)) stageImage of
              Inl err \<Rightarrow> Return (Inl err, ba)
            | Inr sourceImage \<Rightarrow>
                (case ConfigFile E sourceImage of
                   Inl err \<Rightarrow> Return (Inl err, ba)
                 | Inr imageConfig \<Rightarrow>
                     (case depsCommands E index (Commands stage) ba imageConfig dependencies of
                        (Inl err, ba') \<Rightarrow> Return (Inl err, ba')
                      | (Inr dependencies', ba') \<Rightarrow>
                          depsStages E index stages stageImage (Suc stageIndex) rest ba'
                            dependencies'))))"

definition Dependencies ::
  "('img, 'cfg, 'ba, 'ref, 'auth) collaborators \<Rightarrow> int \<Rightarrow> Stage list \<Rightarrow> 'img \<Rightarrow> 'ba
     \<Rightarrow> ((error + string list) \<times> 'ba) outcome" where
  "Dependencies E index stages stageImage buildArgs =
     depsStages E index stages stageImage 0 stages buildArgs []"

section \<open>Auxiliary notions and concrete inputs\<close>

subsection \<open>Scenarios of the layered map\<close>

text \<open>
  The first scenario of the specification: \<open>/a\<close> and \<open>/b\<close> are captured by the first
  layer; the second layer deletes \<open>/a\<close> and captures \<open>/c\<close>.
\<close>

definition hasher_S1 :: hashfn where
  "hasher_S1 p =
     (if p = ''/a'' then Inr ''h1''
      else if p = ''/b'' then Inr ''h2''
      else if p = ''/c'' then Inr ''h3''
      else Inl (ExternalError ''no such file''))"

definition ops_S1 :: "op list" where
  "ops_S1 = [OpSnapshot, OpAdd ''/a'', OpAdd ''/b'', OpSnapshot, OpAddWhiteout ''/a'', OpAdd ''/c'']"

text \<open>A layer that captures \<open>/a\<close>, then a layer that deletes it.\<close>

definition ops_C5 :: "op list" where
  "ops_C5 = [OpSnapshot, OpAdd ''/a'', OpSnapshot, OpAddWhiteout ''/a'']"

text \<open>
  The file \<open>/a\<close> after a change of its modification time: the hasher answers with
  another hash. A history that caches the old hash of \<open>/a\<close> before the change.
\<close>

definition hasher_touched :: hashfn where
  "hasher_touched p = (if p = ''/a'' then Inr ''h1-touched'' else hasher_S1 p)"

definition ops_C7 :: "op list" where
  "ops_C7 = [OpSnapshot, OpCheckFileChange ''/a'', FsChange hasher_touched]"

text \<open>The state after \<open>Snapshot\<close> and \<open>Add("/a")\<close> on a new map.\<close>

definition state_C3 :: LayeredMap where
  "state_C3 =
     \<lparr>layers = [[''/a'' \<mapsto> ''h1'']], whiteouts = [{}], currentImage = Map.empty,
      isCurrentImageValid = False, layerHashCache = Map.empty,
      hasher = hasher_S1, cacheHasher = hasher_S1\<rparr>"

subsection \<open>The added history\<close>







subsection \<open>The encoding of the added layers\<close>











subsection \<open>Stage names and the table of the resolver\<close>

text \<open>
  The value of \<open>nameToIndex\<close> when the loop of \<open>ResolveStages\<close> has gone through a
  list of stages, the first of which has index \<open>i\<close>; \<open>nextMap\<close> is one step of it.
\<close>

fun nameToIndexAfter :: "nat \<Rightarrow> (string \<rightharpoonup> string) \<Rightarrow> Stage list \<Rightarrow> (string \<rightharpoonup> string)" where
  "nameToIndexAfter i nameToIndex [] = nameToIndex"
| "nameToIndexAfter i nameToIndex (stage # rest) =
     nameToIndexAfter (Suc i)
       (if Name stage \<noteq> Itoa (int i) then nameToIndex(Name stage \<mapsto> Itoa (int i))
        else nameToIndex) rest"

text \<open>
  The stage names that the Dockerfile parser returns are empty or begin with a letter.
  What the resolver needs is less: no stage is named by the index string of another
  stage. \<open>names_ok_from\<close> and \<open>map_ok\<close> are the same condition inside the loop.
\<close>

definition stage_names_ok :: "Stage list \<Rightarrow> bool" where
  "stage_names_ok stages \<longleftrightarrow>
     (\<forall>k<length stages. \<forall>j<length stages.
        Name (stages ! k) = Itoa (int j) \<longrightarrow> Name (stages ! k) = Itoa (int k))"

definition names_ok_from :: "nat \<Rightarrow> nat \<Rightarrow> Stage list \<Rightarrow> bool" where
  "names_ok_from i N stages \<longleftrightarrow>
     (\<forall>k<length stages. \<forall>j<N.
        Name (stages ! k) = Itoa (int j) \<longrightarrow> Name (stages ! k) = Itoa (int (i + k)))"

definition map_ok :: "nat \<Rightarrow> (string \<rightharpoonup> string) \<Rightarrow> bool" where
  "map_ok N m \<longleftrightarrow>
     (\<forall>x v. m x = Some v \<longrightarrow> (\<exists>j<N. v = Itoa (int j))) \<and> (\<forall>j<N. m (Itoa (int j)) = None)"

definition nextMap :: "nat \<Rightarrow> (string \<rightharpoonup> string) \<Rightarrow> Stage \<Rightarrow> (string \<rightharpoonup> string)" where
  "nextMap i m stage =
     (if Name stage \<noteq> Itoa (int i) then m(Name stage \<mapsto> Itoa (int i)) else m)"

text \<open>
  The third scenario of the specification, with a copy from an external image added, and
  a stage list that no parser returns: its first stage is named \<open>1\<close>.
\<close>

definition stages_S3 :: "Stage list" where
  "stages_S3 =
     [\<lparr>Name = ''builder'', BaseName = ''base'', Commands = [OtherCommand ''RUN make'']\<rparr>,
      \<lparr>Name = [], BaseName = ''runtime'',
       Commands = [CopyCommand ''builder'' [''/out/app'', ''/usr/bin/app''],
                   CopyCommand ''nginx:latest'' [''/etc/nginx'', ''/etc/nginx'']]\<rparr>]"

text \<open>The \<open>From\<close> field that the type switch leaves in a copy command.\<close>

definition rewrittenFrom :: "(string \<rightharpoonup> string) \<Rightarrow> string \<Rightarrow> string" where
  "rewrittenFrom M f = (if f \<noteq> [] then (case M f of Some v \<Rightarrow> v | None \<Rightarrow> f) else f)"

definition stages_numeric :: "Stage list" where
  "stages_numeric =
     [\<lparr>Name = ''1'', BaseName = ''base'', Commands = []\<rparr>,
      \<lparr>Name = ''b'', BaseName = ''base'', Commands = [CopyCommand ''b'' [''/x'', ''/y'']]\<rparr>]"

text \<open>
  The resolver as the specification words it: first the table of the names of every
  stage, then every copy of every stage rewritten with that table. A script whose first
  stage copies from the stage declared after it.
\<close>

definition spec_ResolveStages :: "Stage list \<Rightarrow> Stage list" where
  "spec_ResolveStages stages =
     (let nameToIndex = nameToIndexAfter 0 Map.empty stages
      in map (\<lambda>stage. stage\<lparr>Commands := map (resolveCommand nameToIndex) (Commands stage)\<rparr>)
           stages)"

definition stages_fwd :: "Stage list" where
  "stages_fwd =
     [\<lparr>Name = ''a'', BaseName = ''base'', Commands = [CopyCommand ''b'' [''/x'', ''/y'']]\<rparr>,
      \<lparr>Name = ''b'', BaseName = ''base'', Commands = []\<rparr>]"

subsection \<open>The copies that a stage feeds\<close>

text \<open>
  The sources that one matching copy contributes: its arguments after substitution of the
  environment, expanded against the root, each made absolute.
\<close>

definition copySources ::
  "('img, 'cfg, 'ba, 'ref, 'auth) collaborators \<Rightarrow> 'ba \<Rightarrow> 'cfg \<Rightarrow> string list
     \<Rightarrow> error + string list" where
  "copySources E ba cfg sourcesAndDest =
     (case ResolveEnvironmentReplacementList E sourcesAndDest
             (ReplacementEnvs E ba (ConfigEnv E cfg)) True of
        Inl err \<Rightarrow> Inl err
      | Inr substituted \<Rightarrow>
          (case ResolveSources E substituted (RootDir E) of
             Inl err \<Rightarrow> Inl err
           | Inr expanded \<Rightarrow> Inr (absolutize E expanded)))"

text \<open>
  The contributions of the matching copies, one list for each copy: those of one later
  stage in the order of its instructions (with the environment and the build arguments
  as the instructions before the copy leave them), and those of all later stages in the
  order of the stages. The first error ends the analysis. \<open>appendAll deps\<close> puts the
  contributions one after the other behind \<open>deps\<close>.
\<close>

definition consCopy ::
  "string list \<Rightarrow> (error + string list list) \<times> 'ba \<Rightarrow> (error + string list list) \<times> 'ba" where
  "consCopy cs r =
     (case r of (Inl err, ba) \<Rightarrow> (Inl err, ba) | (Inr css, ba) \<Rightarrow> (Inr (cs # css), ba))"

fun stageCopies ::
  "('img, 'cfg, 'ba, 'ref, 'auth) collaborators \<Rightarrow> int \<Rightarrow> command list \<Rightarrow> 'ba \<Rightarrow> 'cfg
     \<Rightarrow> (error + string list list) \<times> 'ba" where
  "stageCopies E index [] ba cfg = (Inr [], ba)"
| "stageCopies E index (EnvCommand env # cmds) ba cfg =
     (case UpdateConfigEnv E env cfg (ReplacementEnvs E ba (ConfigEnv E cfg)) of
        Inl err \<Rightarrow> (Inl err, ba)
      | Inr cfg' \<Rightarrow> stageCopies E index cmds ba cfg')"
| "stageCopies E index (ArgCommand k v # cmds) ba cfg =
     stageCopies E index cmds (AddArg E k v ba) cfg"
| "stageCopies E index (CopyCommand from sd # cmds) ba cfg =
     (if from = Itoa index
      then (case copySources E ba cfg sd of
              Inl err \<Rightarrow> (Inl err, ba)
            | Inr cs \<Rightarrow> consCopy cs (stageCopies E index cmds ba cfg))
      else stageCopies E index cmds ba cfg)"
| "stageCopies E index (OtherCommand c # cmds) ba cfg = stageCopies E index cmds ba cfg"

definition appendCopies ::
  "string list list \<Rightarrow> ((error + string list list) \<times> 'ba) outcome
     \<Rightarrow> ((error + string list list) \<times> 'ba) outcome" where
  "appendCopies css r =
     (case r of
        Panic \<Rightarrow> Panic
      | Return (Inl err, ba) \<Rightarrow> Return (Inl err, ba)
      | Return (Inr css', ba) \<Rightarrow> Return (Inr (css @ css'), ba))"

fun laterCopies ::
  "('img, 'cfg, 'ba, 'ref, 'auth) collaborators \<Rightarrow> int \<Rightarrow> Stage list \<Rightarrow> 'img \<Rightarrow> nat
     \<Rightarrow> Stage list \<Rightarrow> 'ba \<Rightarrow> ((error + string list list) \<times> 'ba) outcome" where
  "laterCopies E index stages stageImage stageIndex [] ba = Return (Inr [], ba)"
| "laterCopies E index stages stageImage stageIndex (stage # rest) ba =
     (if int stageIndex \<le> index
      then laterCopies E index stages stageImage (Suc stageIndex) rest ba
      else if index < 0 \<or> length stages \<le> nat index then Panic
      else (case selectSourceImage E (BaseName stage) (Name (stages ! nat index)) stageImage of
              Inl err \<Rightarrow> Return (Inl err, ba)
            | Inr sourceImage \<Rightarrow>
                (case ConfigFile E sourceImage of
                   Inl err \<Rightarrow> Return (Inl err, ba)
                 | Inr cfg \<Rightarrow>
                     (case stageCopies E index (Commands stage) ba cfg of
                        (Inl err, ba') \<Rightarrow> Return (Inl err, ba')
                      | (Inr css, ba') \<Rightarrow>
                          appendCopies css
                            (laterCopies E index stages stageImage (Suc stageIndex) rest ba')))))"

definition matchingCopies ::
  "('img, 'cfg, 'ba, 'ref, 'auth) collaborators \<Rightarrow> int \<Rightarrow> Stage list \<Rightarrow> 'img \<Rightarrow> 'ba
     \<Rightarrow> ((error + string list list) \<times> 'ba) outcome" where
  "matchingCopies E index stages stageImage buildArgs =
     laterCopies E index stages stageImage 0 stages buildArgs"

definition appendAll ::
  "string list \<Rightarrow> (error + string list list) \<times> 'ba \<Rightarrow> (error + string list) \<times> 'ba" where
  "appendAll deps r =
     (case r of
        (Inl err, ba) \<Rightarrow> (Inl err, ba)
      | (Inr css, ba) \<Rightarrow> (Inr (deps @ concat css), ba))"

text \<open>
  Collaborators for a script without environment variables and wildcards: no base image
  has to be fetched, nothing is substituted, and the sources of a copy are its arguments
  without the destination. A script whose second stage copies \<open>/out/app\<close> from stage
  \<open>0\<close> twice.
\<close>

definition E_demo ::
  "(unit, string list, (string \<times> string option) list, string, unit) collaborators" where
  "E_demo =
     \<lparr>NoBaseImage = ''scratch'',
      KanikoIntermediateStagesDir = ''/kaniko/stages'',
      StageTar = ''stage.tar'',
      RootDir = ''/'',
      emptyImage = (),
      FilepathExists = (\<lambda>p. False),
      Join = (\<lambda>a b. a @ ''/'' @ b),
      IsAbs = (\<lambda>p. p \<noteq> [] \<and> hd p = CHR ''/''),
      ImageFromPath = (\<lambda>p. Inr ()),
      ParseReference = (\<lambda>s. Inr s),
      Resolve = (\<lambda>r. Inr ()),
      remoteImage = (\<lambda>r a. Inr ()),
      ConfigFile = (\<lambda>i. Inr []),
      ConfigEnv = (\<lambda>c. c),
      ReplacementEnvs = (\<lambda>ba env. env),
      UpdateConfigEnv = (\<lambda>kvs c envs. Inr (c @ map (\<lambda>(k, v). k @ ''='' @ v) kvs)),
      AddArg = (\<lambda>k v ba. (k, v) # ba),
      ResolveEnvironmentReplacementList = (\<lambda>xs envs isFilepath. Inr xs),
      ResolveSources = (\<lambda>xs root. Inr (butlast xs))\<rparr>"

definition stages_dup :: "Stage list" where
  "stages_dup =
     [\<lparr>Name = ''builder'', BaseName = ''golang'', Commands = [OtherCommand ''RUN make'']\<rparr>,
      \<lparr>Name = [], BaseName = ''scratch'',
       Commands = [CopyCommand ''0'' [''/out/app'', ''/usr/bin/app''],
                   CopyCommand ''0'' [''/out/app'', ''/opt/app'']]\<rparr>]"

section \<open>Properties of the layered map\<close>

subsection \<open>The loop of UpdateCurrentImage and the flattened image\<close>

lemma spec_apply_applyLayer:
  "spec_apply img \<lparr>added = a, deleted = d\<rparr> = applyLayer a d img"
  by (auto simp: spec_apply_def applyLayer_def restrict_map_def map_add_def fun_eq_iff
      split: option.splits)

lemma flattenLayers_spec:
  "length ls \<le> length ws \<Longrightarrow>
   flattenLayers i ls ws img = Return (foldl spec_apply img (drop i (mkLayers ls ws)))"
proof (induction i ls ws img rule: flattenLayers.induct)
  case (1 i ls ws img)
  show ?case
  proof (cases "i < length ls")
    case True
    with "1.prems" have iw: "i < length ws" by simp
    have len: "i < length (mkLayers ls ws)" using True iw by (simp add: mkLayers_def)
    have nth: "mkLayers ls ws ! i = \<lparr>added = ls ! i, deleted = ws ! i\<rparr>"
      using True iw by (simp add: mkLayers_def)
    have "flattenLayers i ls ws img =
          flattenLayers (Suc i) ls ws (applyLayer (ls ! i) (ws ! i) img)"
      using True iw by (simp add: flattenLayers.simps [of i])
    also have "\<dots> = Return (foldl spec_apply (applyLayer (ls ! i) (ws ! i) img)
                           (drop (Suc i) (mkLayers ls ws)))"
      using "1.IH" [OF True iw "1.prems"] .
    also have "\<dots> = Return (foldl spec_apply img (drop i (mkLayers ls ws)))"
      by (simp add: Cons_nth_drop_Suc [OF len, symmetric] nth spec_apply_applyLayer)
    finally show ?thesis .
  next
    case False
    then have "length (mkLayers ls ws) \<le> i" by (simp add: mkLayers_def)
    then show ?thesis using False by (simp add: flattenLayers.simps [of i])
  qed
qed

text \<open>The panic of the model is a real branch: a shorter \<open>whiteouts\<close> slice reaches it.\<close>

lemma flattenLayers_panic:
  "length ws < length ls \<Longrightarrow> i \<le> length ws \<Longrightarrow> flattenLayers i ls ws img = Panic"
proof (induction i ls ws img rule: flattenLayers.induct)
  case (1 i ls ws img)
  show ?case
  proof (cases "i < length ws")
    case True
    then show ?thesis using 1 by (simp add: flattenLayers.simps [of i])
  next
    case False
    then show ?thesis using "1.prems" by (subst flattenLayers.simps) simp
  qed
qed

lemma UpdateCurrentImage_lm_inv:
  assumes "lm_inv l"
  shows "UpdateCurrentImage l =
           Return (l\<lparr>currentImage := spec_flatten (layer_stack l), isCurrentImageValid := True\<rparr>)"
proof (cases "isCurrentImageValid l")
  case True
  then show ?thesis using assms by (simp add: UpdateCurrentImage_def lm_inv_def)
next
  case False
  have "flattenLayers 0 (layers l) (whiteouts l) Map.empty = Return (spec_flatten (layer_stack l))"
    using assms
    by (simp add: lm_inv_def flattenLayers_spec spec_flatten_def layer_stack_def mkLayers_def)
  then show ?thesis using False by (simp add: UpdateCurrentImage_def)
qed

lemma spec_apply_empty: "spec_apply img \<lparr>added = Map.empty, deleted = {}\<rparr> = img"
  by (simp add: spec_apply_def)

lemma Snapshot_lm_inv:
  assumes "lm_inv l"
  shows "Snapshot l =
     Return (l\<lparr>currentImage := spec_flatten (layer_stack l), isCurrentImageValid := True,
               whiteouts := whiteouts l @ [{}], layers := layers l @ [Map.empty],
               layerHashCache := Map.empty\<rparr>)"
  by (simp add: Snapshot_def UpdateCurrentImage_lm_inv [OF assms])

lemma spec_flatten_push:
  assumes "length (whiteouts l) = length (layers l)"
    and "layers l' = layers l @ [Map.empty]" and "whiteouts l' = whiteouts l @ [{}]"
  shows "spec_flatten (layer_stack l') = spec_flatten (layer_stack l)"
proof -
  have "layer_stack l' = layer_stack l @ [\<lparr>added = Map.empty, deleted = {}\<rparr>]"
    using assms by (simp add: layer_stack_def)
  then show ?thesis by (simp add: spec_flatten_def spec_apply_empty)
qed

subsection \<open>The invariant along a history\<close>

lemma lm_inv_New: "lm_inv (NewLayeredMap h c)"
  by (simp add: lm_inv_def NewLayeredMap_def)

lemma step_lm_inv: "lm_inv l \<Longrightarrow> step x l = Return l' \<Longrightarrow> lm_inv l'"
proof (cases x)
  case OpSnapshot
  assume a: "lm_inv l" "step x l = Return l'"
  have len: "length (whiteouts l) = length (layers l)" using a(1) by (simp add: lm_inv_def)
  have l': "l' = l\<lparr>currentImage := spec_flatten (layer_stack l), isCurrentImageValid := True,
               whiteouts := whiteouts l @ [{}], layers := layers l @ [Map.empty],
               layerHashCache := Map.empty\<rparr>"
    using a OpSnapshot by (simp add: Snapshot_lm_inv)
  have "spec_flatten (layer_stack l') = spec_flatten (layer_stack l)"
    by (rule spec_flatten_push [OF len]) (simp_all add: l')
  then show ?thesis using len by (simp add: lm_inv_def l')
next
  case (OpAdd s)
  assume "lm_inv l" "step x l = Return l'"
  then show ?thesis using OpAdd
    by (auto simp: lm_inv_def Add_def Let_def split: sum.splits if_splits)
next
  case (OpAddWhiteout s)
  assume "lm_inv l" "step x l = Return l'"
  then show ?thesis using OpAddWhiteout
    by (auto simp: lm_inv_def AddWhiteout_def Let_def split: if_splits)
next
  case (OpCheckFileChange s)
  assume "lm_inv l" "step x l = Return l'"
  then show ?thesis using OpCheckFileChange
    by (auto simp: lm_inv_def CheckFileChange_def Let_def layer_stack_def
        split: sum.splits option.splits if_splits)
next
  case OpGetCurrentPaths
  assume a: "lm_inv l" "step x l = Return l'"
  then show ?thesis using OpGetCurrentPaths
    by (auto simp: lm_inv_def GetCurrentPaths_def UpdateCurrentImage_lm_inv [OF a(1)]
        layer_stack_def)
next
  case OpUpdateCurrentImage
  assume a: "lm_inv l" "step x l = Return l'"
  then show ?thesis using OpUpdateCurrentImage
    by (auto simp: lm_inv_def UpdateCurrentImage_lm_inv [OF a(1)] layer_stack_def)
next
  case (FsChange h)
  assume "lm_inv l" "step x l = Return l'"
  then show ?thesis using FsChange
    by (auto simp: lm_inv_def layer_stack_def)
qed

lemma run_lm_inv: "lm_inv l \<Longrightarrow> run xs l = Return l' \<Longrightarrow> lm_inv l'"
proof (induction xs arbitrary: l)
  case Nil
  then show ?case by simp
next
  case (Cons x xs)
  then show ?case
    by (auto split: outcome.splits dest: step_lm_inv)
qed

lemma reachable_lm_inv: "run xs (NewLayeredMap h c) = Return l \<Longrightarrow> lm_inv l"
  using run_lm_inv [OF lm_inv_New] .

text \<open>The state that the first scenario reaches.\<close>

lemma run_ops_S1:
  "\<exists>l. run ops_S1 (NewLayeredMap hasher_S1 hasher_S1) = Return l \<and>
       layers l = [[''/a'' \<mapsto> ''h1'', ''/b'' \<mapsto> ''h2''], [''/c'' \<mapsto> ''h3'']] \<and>
       whiteouts l = [{}, {''/a''}] \<and> layerHashCache l = Map.empty \<and> hasher l = hasher_S1"
  by (simp add: ops_S1_def NewLayeredMap_def Snapshot_def UpdateCurrentImage_def
      flattenLayers.simps Add_def AddWhiteout_def cachedHash_def hasher_S1_def Let_def)

subsection \<open>Flattening\<close>

text \<open>
  C1. In every state that a history of calls reaches from a new \<open>LayeredMap\<close>,
  \<open>GetCurrentPaths\<close> returns the set of paths of the flattened image of the
  specification: the layers folded in order over the empty mapping, each layer's added
  entries inserted (overwriting) and then its deleted entries removed. The call leaves
  the layers as they are.
\<close>

theorem GetCurrentPaths_flattening:
  assumes "run ops (NewLayeredMap h c) = Return l"
  shows "\<exists>l'. GetCurrentPaths l = Return (dom (spec_flatten (layer_stack l)), l') \<and>
              layers l' = layers l \<and> whiteouts l' = whiteouts l"
  using reachable_lm_inv [OF assms]
  by (simp add: GetCurrentPaths_def UpdateCurrentImage_lm_inv)

theorem GetCurrentPaths_flattening_witness:
  "\<exists>l l'. run ops_S1 (NewLayeredMap hasher_S1 hasher_S1) = Return l \<and>
          GetCurrentPaths l = Return ({''/b'', ''/c''}, l')"
proof -
  obtain l where r: "run ops_S1 (NewLayeredMap hasher_S1 hasher_S1) = Return l"
    and ls: "layers l = [[''/a'' \<mapsto> ''h1'', ''/b'' \<mapsto> ''h2''], [''/c'' \<mapsto> ''h3'']]"
    and ws: "whiteouts l = [{}, {''/a''}]"
    using run_ops_S1 by blast
  have "dom (spec_flatten (layer_stack l)) = {''/b'', ''/c''}"
    by (auto simp: ls ws layer_stack_def spec_flatten_def spec_apply_def dom_def
        split: if_splits)
  with GetCurrentPaths_flattening [OF r] r show ?thesis by auto
qed

subsection \<open>Get\<close>

lemma GetLoop_found:
  "GetLoop n ls s = (v, True) \<longleftrightarrow>
     (\<exists>i<n. (ls ! i) s = Some v \<and> (\<forall>j. i < j \<and> j < n \<longrightarrow> (ls ! j) s = None))"
proof (induction n)
  case 0
  then show ?case by simp
next
  case (Suc n)
  show ?case
  proof (cases "(ls ! n) s")
    case None
    have "(\<exists>i<Suc n. (ls ! i) s = Some v \<and> (\<forall>j. i < j \<and> j < Suc n \<longrightarrow> (ls ! j) s = None)) \<longleftrightarrow>
          (\<exists>i<n. (ls ! i) s = Some v \<and> (\<forall>j. i < j \<and> j < n \<longrightarrow> (ls ! j) s = None))"
      using None by (metis less_Suc_eq option.distinct(1))
    then show ?thesis using None Suc.IH by simp
  next
    case (Some w)
    have "(\<exists>i<Suc n. (ls ! i) s = Some v \<and> (\<forall>j. i < j \<and> j < Suc n \<longrightarrow> (ls ! j) s = None)) \<longleftrightarrow> w = v"
    proof
      assume "\<exists>i<Suc n. (ls ! i) s = Some v \<and> (\<forall>j. i < j \<and> j < Suc n \<longrightarrow> (ls ! j) s = None)"
      then obtain i where i: "i < Suc n" "(ls ! i) s = Some v"
        "\<forall>j. i < j \<and> j < Suc n \<longrightarrow> (ls ! j) s = None" by blast
      have "i = n"
      proof (rule ccontr)
        assume "i \<noteq> n"
        with i(1) have "i < n" by simp
        with i(3) have "(ls ! n) s = None" by simp
        with Some show False by simp
      qed
      with i(2) Some show "w = v" by simp
    next
      assume "w = v"
      with Some have "(ls ! n) s = Some v" by simp
      moreover have "\<forall>j. n < j \<and> j < Suc n \<longrightarrow> (ls ! j) s = None" by auto
      ultimately show "\<exists>i<Suc n. (ls ! i) s = Some v \<and> (\<forall>j. i < j \<and> j < Suc n \<longrightarrow> (ls ! j) s = None)"
        by blast
    qed
    then show ?thesis using Some by simp
  qed
qed

lemma GetLoop_absent:
  "GetLoop n ls s = ([], False) \<longleftrightarrow> (\<forall>i<n. (ls ! i) s = None)"
proof (induction n)
  case 0
  then show ?case by simp
next
  case (Suc n)
  then show ?case
    by (cases "(ls ! n) s") (auto simp: less_Suc_eq)
qed

lemma GetLoop_total:
  "GetLoop n ls s = ([], False) \<or> (\<exists>v. GetLoop n ls s = (v, True))"
  by (induction n) (auto split: option.splits)

text \<open>
  C5. \<open>Get\<close> scans the layers from the topmost down and returns the hash of the first
  layer whose added mapping has the path, together with \<open>true\<close>; it answers
  \<open>("", false)\<close> exactly when no layer's added mapping has the path. The whiteouts play
  no part: replacing them by anything leaves the answer as it is.
\<close>

theorem Get_top_down_ignores_whiteouts:
  "(Get s l = (v, True) \<longleftrightarrow>
      (\<exists>i<length (layers l). (layers l ! i) s = Some v \<and>
         (\<forall>j. i < j \<and> j < length (layers l) \<longrightarrow> (layers l ! j) s = None))) \<and>
   (Get s l = ([], False) \<longleftrightarrow> (\<forall>i<length (layers l). (layers l ! i) s = None)) \<and>
   (Get s l = ([], False) \<or> (\<exists>w. Get s l = (w, True))) \<and>
   Get s (l\<lparr>whiteouts := ws\<rparr>) = Get s l"
  using GetLoop_total [of "length (layers l)" "layers l" s]
  by (simp add: Get_def GetLoop_found GetLoop_absent)

theorem Get_top_down_ignores_whiteouts_witness:
  "\<exists>l. run ops_C5 (NewLayeredMap hasher_S1 hasher_S1) = Return l \<and>
     whiteouts l = [{}, {''/a''}] \<and> Get ''/a'' l = (''h1'', True)"
proof -
  have "\<exists>l. run ops_C5 (NewLayeredMap hasher_S1 hasher_S1) = Return l \<and>
       layers l = [[''/a'' \<mapsto> ''h1''], Map.empty] \<and> whiteouts l = [{}, {''/a''}]"
    by (simp add: ops_C5_def NewLayeredMap_def Snapshot_def UpdateCurrentImage_def
      flattenLayers.simps Add_def AddWhiteout_def cachedHash_def hasher_S1_def Let_def)
  then obtain l where r: "run ops_C5 (NewLayeredMap hasher_S1 hasher_S1) = Return l"
    and ls: "layers l = [[''/a'' \<mapsto> ''h1''], Map.empty]" and ws: "whiteouts l = [{}, {''/a''}]"
    by blast
  have "0 < length (layers l) \<and> (layers l ! 0) ''/a'' = Some ''h1'' \<and>
        (\<forall>j. 0 < j \<and> j < length (layers l) \<longrightarrow> (layers l ! j) ''/a'' = None)"
    by (auto simp: ls less_Suc_eq)
  then have g: "Get ''/a'' l = (''h1'', True)"
    using Get_top_down_ignores_whiteouts [of "''/a''" l "''h1''"] by blast
  with r ws show ?thesis by blast
qed

subsection \<open>The two slices grow together\<close>

lemma step_lengths:
  assumes "step x l = Return l'"
  shows "if x = OpSnapshot
         then layers l' = layers l @ [Map.empty] \<and> whiteouts l' = whiteouts l @ [{}]
         else length (layers l') = length (layers l) \<and>
              length (whiteouts l') = length (whiteouts l)"
proof (cases x)
  case OpSnapshot
  then show ?thesis using assms
    by (auto simp: Snapshot_def UpdateCurrentImage_def split: outcome.splits if_splits)
next
  case (OpAdd s)
  then show ?thesis using assms
    by (auto simp: Add_def Let_def split: sum.splits if_splits)
next
  case (OpAddWhiteout s)
  then show ?thesis using assms
    by (auto simp: AddWhiteout_def Let_def split: if_splits)
next
  case (OpCheckFileChange s)
  then show ?thesis using assms
    by (auto simp: CheckFileChange_def Let_def split: sum.splits option.splits if_splits)
next
  case OpGetCurrentPaths
  then show ?thesis using assms
    by (auto simp: GetCurrentPaths_def UpdateCurrentImage_def split: outcome.splits if_splits)
next
  case OpUpdateCurrentImage
  then show ?thesis using assms
    by (auto simp: UpdateCurrentImage_def split: outcome.splits if_splits)
next
  case (FsChange h)
  then show ?thesis using assms by auto
qed

text \<open>
  C9. In every state that a history of calls reaches from a new \<open>LayeredMap\<close>, the
  slice of added layers and the slice of whiteout layers are equally long, so the loop of
  \<open>UpdateCurrentImage\<close> never reads \<open>whiteouts[i]\<close> out of range, and neither
  \<open>UpdateCurrentImage\<close> nor \<open>Snapshot\<close> nor \<open>GetCurrentPaths\<close> panics. Every step
  leaves both lengths as they are, except \<open>Snapshot\<close>, which appends exactly one empty
  element to each slice.
\<close>

theorem layers_whiteouts_equal_length:
  assumes "run ops (NewLayeredMap h c) = Return l"
  shows "length (whiteouts l) = length (layers l) \<and>
         flattenLayers 0 (layers l) (whiteouts l) Map.empty \<noteq> Panic \<and>
         UpdateCurrentImage l \<noteq> Panic \<and> Snapshot l \<noteq> Panic \<and> GetCurrentPaths l \<noteq> Panic \<and>
         (\<forall>x l'. step x l = Return l' \<longrightarrow>
            (if x = OpSnapshot
             then layers l' = layers l @ [Map.empty] \<and> whiteouts l' = whiteouts l @ [{}]
             else length (layers l') = length (layers l) \<and>
                  length (whiteouts l') = length (whiteouts l)))"
proof -
  have inv: "lm_inv l" using reachable_lm_inv [OF assms] .
  then have len: "length (whiteouts l) = length (layers l)" by (simp add: lm_inv_def)
  have "flattenLayers 0 (layers l) (whiteouts l) Map.empty \<noteq> Panic"
    using len by (simp add: flattenLayers_spec)
  moreover have "UpdateCurrentImage l \<noteq> Panic" "Snapshot l \<noteq> Panic" "GetCurrentPaths l \<noteq> Panic"
    by (simp_all add: Snapshot_def GetCurrentPaths_def UpdateCurrentImage_lm_inv [OF inv])
  ultimately show ?thesis using len step_lengths by blast
qed

theorem layers_whiteouts_equal_length_witness:
  "\<exists>l. run ops_S1 (NewLayeredMap hasher_S1 hasher_S1) = Return l \<and>
       length (whiteouts l) = 2 \<and> length (layers l) = 2 \<and>
       (\<exists>l'. step OpSnapshot l = Return l' \<and> length (whiteouts l') = 3 \<and> length (layers l') = 3)"
proof -
  obtain l where r: "run ops_S1 (NewLayeredMap hasher_S1 hasher_S1) = Return l"
    and ls: "layers l = [[''/a'' \<mapsto> ''h1'', ''/b'' \<mapsto> ''h2''], [''/c'' \<mapsto> ''h3'']]"
    using run_ops_S1 by blast
  note t = layers_whiteouts_equal_length [OF r]
  from t have len: "length (whiteouts l) = 2" "length (layers l) = 2" by (simp_all add: ls)
  from t have "Snapshot l \<noteq> Panic" by blast
  then obtain l' where s: "step OpSnapshot l = Return l'" by (cases "Snapshot l") auto
  with t have "layers l' = layers l @ [Map.empty] \<and> whiteouts l' = whiteouts l @ [{}]"
    by (metis (full_types))
  then have "length (whiteouts l') = 3 \<and> length (layers l') = 3" using len by simp
  with r len s show ?thesis by blast
qed

subsection \<open>A failed Add\<close>

text \<open>
  C10. When \<open>Add\<close> returns an error (the path has no cached hash and the hasher fails
  on it), the state differs from the one before only in the validity bit: no added
  mapping and no whiteout set has changed, and \<open>Get\<close>, \<open>Key\<close> and
  \<open>GetCurrentPaths\<close> answer as before.
\<close>

theorem Add_hasher_failure_keeps_layers:
  assumes "run ops (NewLayeredMap h c) = Return l"
    and "Add s l = Return (Some e, l')"
  shows "l' = l\<lparr>isCurrentImageValid := False\<rparr> \<and>
         layers l' = layers l \<and> whiteouts l' = whiteouts l \<and>
         (\<exists>err. e = ErrorCreatingHash s err \<and> hasher l s = Inl err \<and> layerHashCache l s = None) \<and>
         Get p l' = Get p l \<and>
         Key Encode SHA256 l' = Key Encode SHA256 l \<and>
         (\<exists>m m'. GetCurrentPaths l = Return (dom (spec_flatten (layer_stack l)), m) \<and>
                 GetCurrentPaths l' = Return (dom (spec_flatten (layer_stack l)), m'))"
proof -
  have l': "l' = l\<lparr>isCurrentImageValid := False\<rparr>"
    using assms(2) by (auto simp: Add_def Let_def split: sum.splits if_splits)
  have e: "\<exists>err. e = ErrorCreatingHash s err \<and> hasher l s = Inl err \<and> layerHashCache l s = None"
    using assms(2)
    by (auto simp: Add_def Let_def cachedHash_def split: sum.splits if_splits option.splits)
  have inv: "lm_inv l" using reachable_lm_inv [OF assms(1)] .
  then have inv': "lm_inv l'" by (simp add: l' lm_inv_def)
  have st: "layer_stack l' = layer_stack l" by (simp add: l' layer_stack_def)
  have "GetCurrentPaths l' = Return (dom (spec_flatten (layer_stack l)),
          l'\<lparr>currentImage := spec_flatten (layer_stack l'), isCurrentImageValid := True\<rparr>)"
    by (simp add: GetCurrentPaths_def UpdateCurrentImage_lm_inv [OF inv'] st)
  moreover have "GetCurrentPaths l = Return (dom (spec_flatten (layer_stack l)),
          l\<lparr>currentImage := spec_flatten (layer_stack l), isCurrentImageValid := True\<rparr>)"
    by (simp add: GetCurrentPaths_def UpdateCurrentImage_lm_inv [OF inv])
  moreover have "Get p l' = Get p l" "Key Encode SHA256 l' = Key Encode SHA256 l"
    by (simp_all add: l' Get_def Key_def)
  ultimately show ?thesis using l' e by simp
qed

theorem Add_hasher_failure_keeps_layers_witness:
  "\<exists>l l'. run ops_S1 (NewLayeredMap hasher_S1 hasher_S1) = Return l \<and>
     Add ''/missing'' l =
       Return (Some (ErrorCreatingHash ''/missing'' (ExternalError ''no such file'')), l') \<and>
     layers l' = [[''/a'' \<mapsto> ''h1'', ''/b'' \<mapsto> ''h2''], [''/c'' \<mapsto> ''h3'']] \<and>
     whiteouts l' = [{}, {''/a''}] \<and>
     Get ''/a'' l' = Get ''/a'' l"
proof -
  obtain l where r: "run ops_S1 (NewLayeredMap hasher_S1 hasher_S1) = Return l"
    and ls: "layers l = [[''/a'' \<mapsto> ''h1'', ''/b'' \<mapsto> ''h2''], [''/c'' \<mapsto> ''h3'']]"
    and ws: "whiteouts l = [{}, {''/a''}]"
    and hc: "layerHashCache l = Map.empty" and hs: "hasher l = hasher_S1"
    using run_ops_S1 by blast
  have a: "Add ''/missing'' l =
       Return (Some (ErrorCreatingHash ''/missing'' (ExternalError ''no such file'')),
               l\<lparr>isCurrentImageValid := False\<rparr>)"
    by (simp add: Add_def cachedHash_def hc hs hasher_S1_def)
  from Add_hasher_failure_keeps_layers [OF r a, of "''/a''"] r a ls ws
  show ?thesis by auto
qed

subsection \<open>What Add returns\<close>

lemma update_last: "xs \<noteq> [] \<Longrightarrow> xs[length xs - Suc 0 := x] = butlast xs @ [x]"
  by (cases xs rule: rev_cases) (auto simp: list_update_append)

text \<open>
  C4, as stated, fails: on a new map (no layer open) the hasher succeeds on \<open>/a\<close>, and
  \<open>Add\<close> does not return an error; the write to the last layer panics.
\<close>

theorem Add_no_layer_counterexample:
  "hasher_S1 ''/a'' = Inr ''h1'' \<and> Add ''/a'' (NewLayeredMap hasher_S1 hasher_S1) = Panic"
  by (simp add: Add_def cachedHash_def NewLayeredMap_def hasher_S1_def)

text \<open>
  C4, amended. \<open>Add\<close> returns an error in exactly one situation: the path has no entry
  in the hash cache and the hasher fails on it; the error wraps the hasher's error, and
  only the validity bit has changed. When a hash is available (cached or computed) and a
  layer is open, \<open>Add\<close> succeeds and stores the path with that hash in the added
  mapping of the top layer. When a hash is available and no layer is open, no error is
  returned: the call panics.
\<close>

theorem Add_outcomes:
  "((\<exists>e l'. Add s l = Return (Some e, l')) \<longleftrightarrow>
      (layerHashCache l s = None \<and> (\<exists>err. hasher l s = Inl err))) \<and>
   (\<forall>err. layerHashCache l s = None \<and> hasher l s = Inl err \<longrightarrow>
      Add s l = Return (Some (ErrorCreatingHash s err), l\<lparr>isCurrentImageValid := False\<rparr>)) \<and>
   (\<forall>v. cachedHash l s = Inr v \<and> layers l \<noteq> [] \<longrightarrow>
      Add s l = Return (None, l\<lparr>isCurrentImageValid := False,
                                layers := butlast (layers l) @ [(last (layers l))(s \<mapsto> v)]\<rparr>)) \<and>
   (Add s l = Panic \<longleftrightarrow> (\<exists>v. cachedHash l s = Inr v) \<and> layers l = [])"
proof -
  have ch: "cachedHash (l\<lparr>isCurrentImageValid := False\<rparr>) s = cachedHash l s"
    by (simp add: cachedHash_def split: option.splits)
  show ?thesis
  proof (cases "cachedHash l s")
    case (Inl err)
    then have miss: "layerHashCache l s = None \<and> hasher l s = Inl err"
      by (auto simp: cachedHash_def split: option.splits)
    have "Add s l = Return (Some (ErrorCreatingHash s err), l\<lparr>isCurrentImageValid := False\<rparr>)"
      using Inl by (simp add: Add_def Let_def ch)
    then show ?thesis using Inl miss by auto
  next
    case (Inr v)
    then have hit: "\<not> (layerHashCache l s = None \<and> (\<exists>err. hasher l s = Inl err))"
      by (auto simp: cachedHash_def split: option.splits)
    show ?thesis
    proof (cases "layers l = []")
      case True
      then have "Add s l = Panic" using Inr by (simp add: Add_def Let_def ch)
      then show ?thesis using Inr hit True by auto
    next
      case False
      then have "Add s l = Return (None, l\<lparr>isCurrentImageValid := False,
                   layers := butlast (layers l) @ [(last (layers l))(s \<mapsto> v)]\<rparr>)"
        using Inr by (simp add: Add_def Let_def ch update_last)
      then show ?thesis using Inr hit False by auto
    qed
  qed
qed

theorem Add_outcomes_witness:
  "\<exists>l l'. run [OpSnapshot] (NewLayeredMap hasher_S1 hasher_S1) = Return l \<and>
     Add ''/a'' l = Return (None, l') \<and> layers l' = [[''/a'' \<mapsto> ''h1'']] \<and>
     Add ''/missing'' l =
       Return (Some (ErrorCreatingHash ''/missing'' (ExternalError ''no such file'')),
               l\<lparr>isCurrentImageValid := False\<rparr>)"
proof -
  have "\<exists>l. run [OpSnapshot] (NewLayeredMap hasher_S1 hasher_S1) = Return l \<and>
       layers l = [Map.empty] \<and> layerHashCache l = Map.empty \<and> hasher l = hasher_S1"
    by (simp add: NewLayeredMap_def Snapshot_def UpdateCurrentImage_def flattenLayers.simps)
  then obtain l where r: "run [OpSnapshot] (NewLayeredMap hasher_S1 hasher_S1) = Return l"
    and ls: "layers l = [Map.empty]" and hc: "layerHashCache l = Map.empty"
    and hs: "hasher l = hasher_S1" by blast
  have c: "cachedHash l ''/a'' = Inr ''h1'' \<and> layers l \<noteq> []"
    by (simp add: cachedHash_def hc hs ls hasher_S1_def)
  have m: "layerHashCache l ''/missing'' = None \<and>
           hasher l ''/missing'' = Inl (ExternalError ''no such file'')"
    by (simp add: hc hs hasher_S1_def)
  from Add_outcomes [of "''/a''" l] c
  have a: "Add ''/a'' l = Return (None, l\<lparr>isCurrentImageValid := False,
             layers := butlast (layers l) @ [(last (layers l))(''/a'' \<mapsto> ''h1'')]\<rparr>)"
    by blast
  from Add_outcomes [of "''/missing''" l] m
  have b: "Add ''/missing'' l =
       Return (Some (ErrorCreatingHash ''/missing'' (ExternalError ''no such file'')),
               l\<lparr>isCurrentImageValid := False\<rparr>)"
    by blast
  show ?thesis using r a b by (simp add: ls)
qed

subsection \<open>Snapshot\<close>

text \<open>
  C7, as stated, fails in one part: \<open>Snapshot\<close> does not invalidate the current image.
  It calls \<open>UpdateCurrentImage\<close>, so the validity bit is \<open>true\<close> afterwards.
\<close>

theorem Snapshot_validates_counterexample:
  "map_outcome isCurrentImageValid (Snapshot (NewLayeredMap hasher_S1 hasher_S1)) = Return True"
  by (simp add: NewLayeredMap_def Snapshot_def UpdateCurrentImage_def flattenLayers.simps)

text \<open>
  C7, amended. On every reachable state \<open>Snapshot\<close> returns; it appends exactly one
  empty added mapping and one empty whiteout set, empties the hash cache, and leaves the
  current image marked valid and equal to the flattened image of the new stack (it
  refreshes the cache instead of invalidating it). An \<open>Add\<close> of any path right after
  it takes the hash from the hasher: it stores the hasher's answer in the new top layer,
  or returns the hasher's error, whatever the cache held before.
\<close>

theorem Snapshot_pushes_empty_layer:
  assumes "run ops (NewLayeredMap h c) = Return l"
  shows "\<exists>l'. Snapshot l = Return l' \<and>
     layers l' = layers l @ [Map.empty] \<and> whiteouts l' = whiteouts l @ [{}] \<and>
     layerHashCache l' = Map.empty \<and> hasher l' = hasher l \<and>
     isCurrentImageValid l' \<and> currentImage l' = spec_flatten (layer_stack l') \<and>
     (\<forall>s v. hasher l s = Inr v \<longrightarrow>
        Add s l' = Return (None, l'\<lparr>isCurrentImageValid := False,
                                    layers := layers l @ [[s \<mapsto> v]]\<rparr>)) \<and>
     (\<forall>s err. hasher l s = Inl err \<longrightarrow>
        Add s l' = Return (Some (ErrorCreatingHash s err), l'\<lparr>isCurrentImageValid := False\<rparr>))"
proof -
  have inv: "lm_inv l" using reachable_lm_inv [OF assms] .
  define l' where "l' = l\<lparr>currentImage := spec_flatten (layer_stack l), isCurrentImageValid := True,
               whiteouts := whiteouts l @ [{}], layers := layers l @ [Map.empty],
               layerHashCache := Map.empty\<rparr>"
  have s: "Snapshot l = Return l'" by (simp add: l'_def Snapshot_lm_inv [OF inv])
  have len: "length (whiteouts l) = length (layers l)" using inv by (simp add: lm_inv_def)
  have "spec_flatten (layer_stack l') = spec_flatten (layer_stack l)"
    by (rule spec_flatten_push [OF len]) (simp_all add: l'_def)
  then have ci: "currentImage l' = spec_flatten (layer_stack l')" by (simp add: l'_def)
  have "\<forall>s v. hasher l s = Inr v \<longrightarrow>
        Add s l' = Return (None, l'\<lparr>isCurrentImageValid := False,
                                    layers := layers l @ [[s \<mapsto> v]]\<rparr>)"
    by (simp add: Add_def cachedHash_def l'_def)
  moreover have "\<forall>s err. hasher l s = Inl err \<longrightarrow>
        Add s l' = Return (Some (ErrorCreatingHash s err), l'\<lparr>isCurrentImageValid := False\<rparr>)"
    by (simp add: Add_def cachedHash_def l'_def)
  ultimately show ?thesis using s ci by (simp add: l'_def)
qed

theorem Snapshot_pushes_empty_layer_witness:
  "\<exists>l l' l''. run ops_C7 (NewLayeredMap hasher_S1 hasher_S1) = Return l \<and>
     layerHashCache l ''/a'' = Some ''h1'' \<and>
     Snapshot l = Return l' \<and> layerHashCache l' ''/a'' = None \<and>
     Add ''/a'' l' = Return (None, l'') \<and>
     layers l'' = [Map.empty, [''/a'' \<mapsto> ''h1-touched'']]"
proof -
  have "\<exists>l. run ops_C7 (NewLayeredMap hasher_S1 hasher_S1) = Return l \<and>
       layers l = [Map.empty] \<and> layerHashCache l ''/a'' = Some ''h1'' \<and>
       hasher l = hasher_touched"
    by (simp add: ops_C7_def NewLayeredMap_def Snapshot_def UpdateCurrentImage_def
        flattenLayers.simps CheckFileChange_def hasher_S1_def Let_def)
  then obtain l where r: "run ops_C7 (NewLayeredMap hasher_S1 hasher_S1) = Return l"
    and ls: "layers l = [Map.empty]" and hc: "layerHashCache l ''/a'' = Some ''h1''"
    and hs: "hasher l = hasher_touched" by blast
  have h: "hasher l ''/a'' = Inr ''h1-touched''" by (simp add: hs hasher_touched_def)
  from Snapshot_pushes_empty_layer [OF r] obtain l' where
    s: "Snapshot l = Return l'" and c: "layerHashCache l' = Map.empty"
    and a: "\<forall>s v. hasher l s = Inr v \<longrightarrow>
        Add s l' = Return (None, l'\<lparr>isCurrentImageValid := False,
                                    layers := layers l @ [[s \<mapsto> v]]\<rparr>)"
    by blast
  from a h have "Add ''/a'' l' = Return (None, l'\<lparr>isCurrentImageValid := False,
                                    layers := layers l @ [[''/a'' \<mapsto> ''h1-touched'']]\<rparr>)"
    by blast
  with r hc s c show ?thesis by (simp add: ls)
qed

subsection \<open>CheckFileChange\<close>

lemma step_keeps_currentImage:
  assumes "step y l = Return l'"
    and "y \<notin> {OpSnapshot, OpGetCurrentPaths, OpUpdateCurrentImage}"
  shows "currentImage l' = currentImage l"
  using assms
  by (cases y)
     (auto simp: Add_def AddWhiteout_def CheckFileChange_def Let_def
        split: sum.splits option.splits if_splits)

lemma run_keeps_currentImage:
  "run ys l = Return l' \<Longrightarrow>
   \<forall>y\<in>set ys. y \<notin> {OpSnapshot, OpGetCurrentPaths, OpUpdateCurrentImage} \<Longrightarrow>
   currentImage l' = currentImage l"
proof (induction ys arbitrary: l)
  case Nil
  then show ?case by simp
next
  case (Cons y ys)
  from Cons.prems(1) obtain l1 where s: "step y l = Return l1" and r: "run ys l1 = Return l'"
    by (auto split: outcome.splits)
  have "currentImage l1 = currentImage l"
    using step_keeps_currentImage [OF s] Cons.prems(2) by simp
  moreover have "currentImage l' = currentImage l1"
    using Cons.IH [OF r] Cons.prems(2) by simp
  ultimately show ?case by simp
qed

lemma materialise_currentImage:
  assumes "lm_inv l0" and "x \<in> {OpSnapshot, OpGetCurrentPaths, OpUpdateCurrentImage}"
    and "step x l0 = Return l1"
  shows "currentImage l1 = spec_flatten (layer_stack l0)"
  using assms(2,3)
  by (auto simp: Snapshot_lm_inv [OF assms(1)] GetCurrentPaths_def
      UpdateCurrentImage_lm_inv [OF assms(1)])

lemma CheckFileChange_result:
  "hasher l s = Inr newV \<Longrightarrow>
   CheckFileChange s l =
     (Inr (currentImage l s \<noteq> Some newV), l\<lparr>layerHashCache := (layerHashCache l)(s \<mapsto> newV)\<rparr>)"
  by (auto simp: CheckFileChange_def Let_def split: option.splits)

text \<open>
  C3, as stated, fails: after \<open>Snapshot\<close> and \<open>Add("/a")\<close> the flattened image of
  all layers maps \<open>/a\<close> to the hash that the hasher returns, yet
  \<open>CheckFileChange("/a")\<close> answers \<open>true\<close>: it compares with the stored image, which
  was computed before the \<open>Add\<close>.
\<close>

theorem CheckFileChange_stale_counterexample:
  "run [OpSnapshot, OpAdd ''/a''] (NewLayeredMap hasher_S1 hasher_S1) = Return state_C3 \<and>
   hasher state_C3 ''/a'' = Inr ''h1'' \<and>
   spec_flatten (layer_stack state_C3) ''/a'' = Some ''h1'' \<and>
   fst (CheckFileChange ''/a'' state_C3) = Inr True"
  by (simp add: state_C3_def NewLayeredMap_def Snapshot_def UpdateCurrentImage_def
      flattenLayers.simps Add_def cachedHash_def hasher_S1_def Let_def
      layer_stack_def spec_flatten_def spec_apply_def CheckFileChange_def)

text \<open>
  C3, amended. \<open>CheckFileChange\<close> compares the hash of the path with the stored current
  image, which is the flattened image of the stack as it stood at the last call that
  computes it (\<open>Snapshot\<close>, \<open>GetCurrentPaths\<close> or \<open>UpdateCurrentImage\<close>); the calls
  of \<open>Add\<close>, \<open>AddWhiteout\<close> and \<open>CheckFileChange\<close> made since then are not seen.
  When the hasher succeeds, the answer is \<open>true\<close> exactly when that image does not map
  the path to the same hash, so a path absent from it is reported as changed; the hash
  is stored in the hash cache.
\<close>

theorem CheckFileChange_compares_stored_image:
  assumes "run ops (NewLayeredMap h c) = Return l0"
    and "x \<in> {OpSnapshot, OpGetCurrentPaths, OpUpdateCurrentImage}"
    and "step x l0 = Return l1"
    and "run ys l1 = Return l"
    and "\<forall>y\<in>set ys. y \<notin> {OpSnapshot, OpGetCurrentPaths, OpUpdateCurrentImage}"
    and "hasher l s = Inr newV"
  shows "currentImage l = spec_flatten (layer_stack l0) \<and>
         CheckFileChange s l =
           (Inr (spec_flatten (layer_stack l0) s \<noteq> Some newV),
            l\<lparr>layerHashCache := (layerHashCache l)(s \<mapsto> newV)\<rparr>) \<and>
         (spec_flatten (layer_stack l0) s = None \<longrightarrow> fst (CheckFileChange s l) = Inr True)"
proof -
  have "currentImage l1 = spec_flatten (layer_stack l0)"
    using materialise_currentImage [OF reachable_lm_inv [OF assms(1)] assms(2,3)] .
  then have ci: "currentImage l = spec_flatten (layer_stack l0)"
    using run_keeps_currentImage [OF assms(4,5)] by simp
  then show ?thesis using CheckFileChange_result [OF assms(6)] by simp
qed

theorem CheckFileChange_compares_stored_image_witness:
  "\<exists>l0 l1 l. run [OpSnapshot, OpAdd ''/a''] (NewLayeredMap hasher_S1 hasher_S1) = Return l0 \<and>
     step OpSnapshot l0 = Return l1 \<and> run [OpAdd ''/b''] l1 = Return l \<and>
     last (layers l) ''/b'' = Some ''h2'' \<and>
     fst (CheckFileChange ''/a'' l) = Inr False \<and>
     fst (CheckFileChange ''/b'' l) = Inr True"
proof -
  have "\<exists>l0 l1 l. run [OpSnapshot, OpAdd ''/a''] (NewLayeredMap hasher_S1 hasher_S1) = Return l0 \<and>
     step OpSnapshot l0 = Return l1 \<and> run [OpAdd ''/b''] l1 = Return l \<and>
     layers l0 = [[''/a'' \<mapsto> ''h1'']] \<and> whiteouts l0 = [{}] \<and>
     layers l = [[''/a'' \<mapsto> ''h1''], [''/b'' \<mapsto> ''h2'']] \<and> hasher l = hasher_S1"
    by (simp add: NewLayeredMap_def Snapshot_def UpdateCurrentImage_def
      flattenLayers.simps Add_def cachedHash_def hasher_S1_def Let_def)
  then obtain l0 l1 l where
    r0: "run [OpSnapshot, OpAdd ''/a''] (NewLayeredMap hasher_S1 hasher_S1) = Return l0"
    and s1: "step OpSnapshot l0 = Return l1" and r: "run [OpAdd ''/b''] l1 = Return l"
    and ls0: "layers l0 = [[''/a'' \<mapsto> ''h1'']]" and ws0: "whiteouts l0 = [{}]"
    and ls: "layers l = [[''/a'' \<mapsto> ''h1''], [''/b'' \<mapsto> ''h2'']]"
    and hs: "hasher l = hasher_S1" by blast
  have x: "OpSnapshot \<in> {OpSnapshot, OpGetCurrentPaths, OpUpdateCurrentImage}" by simp
  have ys: "\<forall>y\<in>set [OpAdd ''/b'']. y \<notin> {OpSnapshot, OpGetCurrentPaths, OpUpdateCurrentImage}"
    by simp
  have ha: "hasher l ''/a'' = Inr ''h1''" and hb: "hasher l ''/b'' = Inr ''h2''"
    by (simp_all add: hs hasher_S1_def)
  have fa: "spec_flatten (layer_stack l0) ''/a'' = Some ''h1''"
    and fb: "spec_flatten (layer_stack l0) ''/b'' = None"
    by (simp_all add: ls0 ws0 layer_stack_def spec_flatten_def spec_apply_def)
  from CheckFileChange_compares_stored_image [OF r0 x s1 r ys ha] fa
  have "fst (CheckFileChange ''/a'' l) = Inr False" by simp
  moreover from CheckFileChange_compares_stored_image [OF r0 x s1 r ys hb] fb
  have "fst (CheckFileChange ''/b'' l) = Inr True" by simp
  ultimately show ?thesis using r0 s1 r by (auto simp: ls)
qed

subsection \<open>Key\<close>
























section \<open>Properties of the stage resolver\<close>

lemma map_ok_value_unknown:
  assumes "map_ok N m" and "m x = Some v"
  shows "m v = None"
proof -
  have a: "\<forall>x v. m x = Some v \<longrightarrow> (\<exists>j<N. v = Itoa (int j))"
    and b: "\<forall>j<N. m (Itoa (int j)) = None"
    using assms(1) by (simp_all add: map_ok_def)
  from a [rule_format, OF assms(2)] obtain j where "j < N" "v = Itoa (int j)" by auto
  with b show ?thesis by simp
qed

lemma resolveCommand_idem:
  assumes "map_ok N m"
  shows "resolveCommand m (resolveCommand m cmd) = resolveCommand m cmd"
proof (cases cmd)
  case (CopyCommand f sd)
  show ?thesis
  proof (cases "m f")
    case None
    then show ?thesis using CopyCommand by simp
  next
    case (Some val)
    have "m val = None" using map_ok_value_unknown [OF assms Some] .
    then show ?thesis using CopyCommand Some by simp
  qed
qed simp_all

lemma length_resolveStagesFrom [simp]:
  "length (resolveStagesFrom i m stages) = length stages"
  by (induction stages arbitrary: i m) (auto simp: Let_def)

lemma resolveStagesFrom_Cons:
  "resolveStagesFrom i m (stage # rest) =
     stage\<lparr>Commands := map (resolveCommand (nextMap i m stage)) (Commands stage)\<rparr>
       # resolveStagesFrom (Suc i) (nextMap i m stage) rest"
  by (simp add: Let_def nextMap_def)

lemma nextMap_Commands [simp]: "nextMap i m (stage\<lparr>Commands := cs\<rparr>) = nextMap i m stage"
  by (simp add: nextMap_def)

lemma map_ok_nextMap:
  assumes "map_ok N m" and "i < N"
    and own: "\<forall>j<N. Name stage = Itoa (int j) \<longrightarrow> Name stage = Itoa (int i)"
  shows "map_ok N (nextMap i m stage)"
  unfolding map_ok_def
proof (intro conjI allI impI)
  fix x v assume "nextMap i m stage x = Some v"
  then have "m x = Some v \<or> v = Itoa (int i)"
    by (auto simp: nextMap_def split: if_splits)
  then show "\<exists>j<N. v = Itoa (int j)"
  proof
    assume "m x = Some v"
    then show ?thesis using assms(1) unfolding map_ok_def by blast
  next
    assume "v = Itoa (int i)"
    then show ?thesis using assms(2) by blast
  qed
next
  fix j assume j: "j < N"
  have mj: "m (Itoa (int j)) = None" using assms(1) j by (simp add: map_ok_def)
  show "nextMap i m stage (Itoa (int j)) = None"
  proof (cases "Name stage = Itoa (int j)")
    case True
    with own j have "Name stage = Itoa (int i)" by simp
    then have "nextMap i m stage = m" by (simp add: nextMap_def)
    then show ?thesis using mj by simp
  next
    case False
    then have "nextMap i m stage (Itoa (int j)) = m (Itoa (int j))"
      by (simp add: nextMap_def)
    then show ?thesis using mj by simp
  qed
qed

lemma names_ok_from_tail:
  assumes "names_ok_from i N (stage # rest)"
  shows "names_ok_from (Suc i) N rest"
  unfolding names_ok_from_def
proof (intro allI impI)
  fix k j assume k: "k < length rest" and j: "j < N" and e: "Name (rest ! k) = Itoa (int j)"
  have a: "Suc k < length (stage # rest)" using k by simp
  have b: "Name ((stage # rest) ! Suc k) = Itoa (int j)" using e by simp
  have "Name ((stage # rest) ! Suc k) = Itoa (int (i + Suc k))"
    using assms [unfolded names_ok_from_def, rule_format, OF a j b] .
  then show "Name (rest ! k) = Itoa (int (Suc i + k))" by (simp del: of_nat_add of_nat_Suc)
qed

lemma names_ok_from_head:
  assumes "names_ok_from i N (stage # rest)"
  shows "\<forall>j<N. Name stage = Itoa (int j) \<longrightarrow> Name stage = Itoa (int i)"
proof (intro allI impI)
  fix j assume j: "j < N" and e: "Name stage = Itoa (int j)"
  have a: "0 < length (stage # rest)" by simp
  have b: "Name ((stage # rest) ! 0) = Itoa (int j)" using e by simp
  show "Name stage = Itoa (int i)"
    using assms [unfolded names_ok_from_def, rule_format, OF a j b] by simp
qed

lemma resolveStagesFrom_idem:
  "map_ok N m \<Longrightarrow> names_ok_from i N stages \<Longrightarrow> N = i + length stages \<Longrightarrow>
   resolveStagesFrom i m (resolveStagesFrom i m stages) = resolveStagesFrom i m stages"
proof (induction stages arbitrary: i m)
  case Nil
  then show ?case by simp
next
  case (Cons stage rest)
  define m' where "m' = nextMap i m stage"
  have iN: "i < N" using Cons.prems(3) by simp
  have ok': "map_ok N m'"
    unfolding m'_def
    using map_ok_nextMap [OF Cons.prems(1) iN names_ok_from_head [OF Cons.prems(2)]] .
  have N': "N = Suc i + length rest" using Cons.prems(3) by simp
  have IH: "resolveStagesFrom (Suc i) m' (resolveStagesFrom (Suc i) m' rest) =
            resolveStagesFrom (Suc i) m' rest"
    using Cons.IH [OF ok' names_ok_from_tail [OF Cons.prems(2)] N'] .
  have cmds: "map (resolveCommand m') (map (resolveCommand m') (Commands stage)) =
              map (resolveCommand m') (Commands stage)"
    using resolveCommand_idem [OF ok'] by (induction "Commands stage") auto
  have cmds: "\<And>cs. map (resolveCommand m') (map (resolveCommand m') cs) =
              map (resolveCommand m') cs"
  proof -
    fix cs show "map (resolveCommand m') (map (resolveCommand m') cs) = map (resolveCommand m') cs"
      by (induction cs) (simp_all add: resolveCommand_idem [OF ok'])
  qed
  show ?case
    unfolding resolveStagesFrom_Cons nextMap_Commands m'_def [symmetric]
    by (simp add: IH cmds del: map_map)
qed

lemma nameToIndexAfter_snoc:
  "nameToIndexAfter i m (xs @ [s]) =
     (if Name s \<noteq> Itoa (int (i + length xs))
      then (nameToIndexAfter i m xs)(Name s \<mapsto> Itoa (int (i + length xs)))
      else nameToIndexAfter i m xs)"
  by (induction xs arbitrary: i m) (simp_all del: of_nat_add of_nat_Suc)

lemma nameToIndexAfter_values:
  "nameToIndexAfter i m xs x = Some v \<Longrightarrow>
   m x = Some v \<or> (\<exists>j<length xs. Name (xs ! j) = x \<and> v = Itoa (int (i + j)))"
proof (induction xs rule: rev_induct)
  case Nil
  then show ?case by simp
next
  case (snoc s xs)
  show ?case
  proof (cases "Name s \<noteq> Itoa (int (i + length xs)) \<and> x = Name s")
    case True
    with snoc.prems have "v = Itoa (int (i + length xs))"
      by (simp add: nameToIndexAfter_snoc del: of_nat_add)
    moreover have "Name ((xs @ [s]) ! length xs) = x" using True by simp
    ultimately show ?thesis by (metis length_append_singleton lessI)
  next
    case False
    with snoc.prems have "nameToIndexAfter i m xs x = Some v"
      by (auto simp add: nameToIndexAfter_snoc simp del: of_nat_add split: if_splits)
    from snoc.IH [OF this] show ?thesis
    proof
      assume "m x = Some v"
      then show ?thesis by simp
    next
      assume "\<exists>j<length xs. Name (xs ! j) = x \<and> v = Itoa (int (i + j))"
      then obtain j where "j < length xs" "Name (xs ! j) = x" "v = Itoa (int (i + j))" by blast
      then have "j < length (xs @ [s]) \<and> Name ((xs @ [s]) ! j) = x \<and> v = Itoa (int (i + j))"
        by (simp add: nth_append)
      then show ?thesis by blast
    qed
  qed
qed

lemma nameToIndexAfter_known:
  "j < length xs \<Longrightarrow> Name (xs ! j) \<noteq> Itoa (int (i + j)) \<Longrightarrow>
   \<exists>j'<length xs. Name (xs ! j') = Name (xs ! j) \<and>
      nameToIndexAfter i m xs (Name (xs ! j)) = Some (Itoa (int (i + j')))"
proof (induction xs rule: rev_induct)
  case Nil
  then show ?case by simp
next
  case (snoc s xs)
  define I where "I = Itoa (int (i + length xs))"
  define f where "f = nameToIndexAfter i m xs"
  define g where "g = nameToIndexAfter i m (xs @ [s])"
  have snocT: "Name s \<noteq> I \<Longrightarrow> g = f(Name s \<mapsto> I)"
    and snocF: "Name s = I \<Longrightarrow> g = f"
    unfolding I_def f_def g_def nameToIndexAfter_snoc by simp_all
  have last_sel: "(xs @ [s]) ! length xs = s" by simp
  have last_lt: "length xs < length (xs @ [s])" by simp
  have new: "Name s \<noteq> I \<Longrightarrow>
      \<exists>j'<length (xs @ [s]). Name ((xs @ [s]) ! j') = Name s \<and>
         g (Name s) = Some (Itoa (int (i + j')))"
  proof -
    assume "Name s \<noteq> I"
    then have "g (Name s) = Some I" using snocT by simp
    then have "Name ((xs @ [s]) ! length xs) = Name s \<and>
               g (Name s) = Some (Itoa (int (i + length xs)))"
      unfolding I_def last_sel by simp
    then show ?thesis using last_lt by blast
  qed
  show ?case
  proof (cases "j < length xs")
    case True
    then have nj: "(xs @ [s]) ! j = xs ! j" by (simp add: nth_append)
    have "Name (xs ! j) \<noteq> Itoa (int (i + j))" using snoc.prems(2) nj by simp
    from snoc.IH [OF True this]
    obtain j' where j': "j' < length xs" "Name (xs ! j') = Name (xs ! j)"
      "f (Name (xs ! j)) = Some (Itoa (int (i + j')))" unfolding f_def by blast
    have keep: "g (Name (xs ! j)) = f (Name (xs ! j)) \<Longrightarrow>
       \<exists>j'<length (xs @ [s]). Name ((xs @ [s]) ! j') = Name (xs ! j) \<and>
         g (Name (xs ! j)) = Some (Itoa (int (i + j')))"
    proof -
      assume "g (Name (xs ! j)) = f (Name (xs ! j))"
      then have "g (Name (xs ! j)) = Some (Itoa (int (i + j')))" using j'(3) by simp
      moreover have "Name ((xs @ [s]) ! j') = Name (xs ! j)"
        using j'(1,2) by (simp add: nth_append)
      moreover have "j' < length (xs @ [s])" using j'(1) by simp
      ultimately show ?thesis by blast
    qed
    have "\<exists>j'<length (xs @ [s]). Name ((xs @ [s]) ! j') = Name (xs ! j) \<and>
         g (Name (xs ! j)) = Some (Itoa (int (i + j')))"
    proof (cases "Name s = I")
      case True
      then have "g = f" by (rule snocF)
      then show ?thesis using keep by simp
    next
      case False
      show ?thesis
      proof (cases "Name s = Name (xs ! j)")
        case True
        then show ?thesis using new [OF False] by simp
      next
        case diff: False
        have "g = f(Name s \<mapsto> I)" using False by (rule snocT)
        then have "g (Name (xs ! j)) = f (Name (xs ! j))" using diff by simp
        then show ?thesis by (rule keep)
      qed
    qed
    then show ?thesis unfolding nj g_def .
  next
    case False
    with snoc.prems(1) have jl: "j = length xs" by simp
    then have "Name s \<noteq> I" using snoc.prems(2) unfolding I_def by simp
    from new [OF this] show ?thesis unfolding jl last_sel g_def .
  qed
qed

lemma resolveStagesFrom_nth:
  "k < length stages \<Longrightarrow>
   resolveStagesFrom i m stages ! k =
     (stages ! k)\<lparr>Commands := map (resolveCommand (nameToIndexAfter i m (take (Suc k) stages)))
                                (Commands (stages ! k))\<rparr>"
proof (induction stages arbitrary: i m k)
  case Nil
  then show ?case by simp
next
  case (Cons stage rest)
  show ?case
  proof (cases k)
    case 0
    then show ?thesis by (simp add: Let_def)
  next
    case (Suc k')
    with Cons.prems have "k' < length rest" by simp
    from Cons.IH [OF this] show ?thesis using Suc by (simp add: Let_def)
  qed
qed

lemma digitsOf_hd: "digitsOf n \<noteq> [] \<and> hd (digitsOf n) \<in> set ''0123456789''"
proof (induction n rule: digitsOf.induct)
  case (1 n)
  show ?case
  proof (cases "n < 10")
    case True
    then have "digitsOf n = [''0123456789'' ! n]" by (simp add: digitsOf.simps [of n])
    moreover have "''0123456789'' ! n \<in> set ''0123456789''"
      using True by (intro nth_mem) simp
    ultimately show ?thesis by simp
  next
    case False
    then have "digitsOf n = digitsOf (n div 10) @ [''0123456789'' ! (n mod 10)]"
      by (simp add: digitsOf.simps [of n])
    then show ?thesis using "1.IH" [OF False] by simp
  qed
qed

lemma Itoa_nat_hd: "Itoa (int j) \<noteq> [] \<and> hd (Itoa (int j)) \<in> set ''0123456789''"
  using digitsOf_hd [of j] by (simp add: Itoa_def)

lemma letter_names_ok:
  assumes "\<forall>s\<in>set stages. Name s = [] \<or> hd (Name s) \<notin> set ''0123456789''"
  shows "stage_names_ok stages"
  unfolding stage_names_ok_def
proof (intro allI impI)
  fix k j assume k: "k < length stages" and e: "Name (stages ! k) = Itoa (int j)"
  have "stages ! k \<in> set stages" using k by simp
  with assms have "Name (stages ! k) = [] \<or> hd (Name (stages ! k)) \<notin> set ''0123456789''"
    by blast
  with e Itoa_nat_hd [of j] have False by metis
  then show "Name (stages ! k) = Itoa (int k)" ..
qed

lemma ResolveStages_nth:
  assumes "k < length stages"
  shows "ResolveStages stages ! k =
     (stages ! k)\<lparr>Commands := map (resolveCommand (nameToIndexAfter 0 Map.empty (take (Suc k) stages)))
                                (Commands (stages ! k))\<rparr>"
  unfolding ResolveStages_def using resolveStagesFrom_nth [OF assms] .

lemma known_lookup_value:
  assumes "k < length stages"
    and "nameToIndexAfter 0 Map.empty (take (Suc k) stages) f = Some v"
  shows "\<exists>j\<le>k. Name (stages ! j) = f \<and> v = Itoa (int j)"
proof -
  from nameToIndexAfter_values [OF assms(2)]
  obtain j where j: "j < length (take (Suc k) stages)" "Name (take (Suc k) stages ! j) = f"
    "v = Itoa (int (0 + j))" by auto
  from j(1) have jk: "j \<le> k" by simp
  then have "take (Suc k) stages ! j = stages ! j" by simp
  with j jk show ?thesis by auto
qed

lemma known_lookup_found:
  assumes "k < length stages" and "j \<le> k" and "Name (stages ! j) \<noteq> Itoa (int j)"
  shows "\<exists>j'\<le>k. Name (stages ! j') = Name (stages ! j) \<and>
           nameToIndexAfter 0 Map.empty (take (Suc k) stages) (Name (stages ! j)) =
             Some (Itoa (int j'))"
proof -
  have jl: "j < length (take (Suc k) stages)" using assms(1,2) by simp
  have tj: "take (Suc k) stages ! j = stages ! j" using assms(2) by simp
  have ne: "Name (take (Suc k) stages ! j) \<noteq> Itoa (int (0 + j))" using assms(3) tj by simp
  from nameToIndexAfter_known [OF jl ne, of Map.empty]
  obtain j' where j': "j' < length (take (Suc k) stages)"
    "Name (take (Suc k) stages ! j') = Name (take (Suc k) stages ! j)"
    "nameToIndexAfter 0 Map.empty (take (Suc k) stages) (Name (take (Suc k) stages ! j)) =
       Some (Itoa (int (0 + j')))" by blast
  from j'(1) have j'k: "j' \<le> k" by simp
  then have tj': "take (Suc k) stages ! j' = stages ! j'" by simp
  from j'(2,3) show ?thesis unfolding tj tj' using j'k by auto
qed

lemma resolveCommand_Copy:
  "resolveCommand M (CopyCommand f sd) = CopyCommand (rewrittenFrom M f) sd"
  by (simp add: rewrittenFrom_def split: option.splits)

lemma rewrittenFrom_props:
  assumes k: "k < length stages"
  defines "M \<equiv> nameToIndexAfter 0 Map.empty (take (Suc k) stages)"
  shows "(rewrittenFrom M f = f \<or>
            (f \<noteq> [] \<and> (\<exists>j\<le>k. Name (stages ! j) = f \<and> rewrittenFrom M f = Itoa (int j))))"
    and "f \<noteq> [] \<and> (\<exists>j\<le>k. Name (stages ! j) = f \<and> f \<noteq> Itoa (int j)) \<longrightarrow>
            (\<exists>j\<le>k. Name (stages ! j) = f \<and> rewrittenFrom M f = Itoa (int j))"
    and "stage_names_ok stages \<Longrightarrow> (\<exists>n<length stages. f = Itoa (int n)) \<longrightarrow> rewrittenFrom M f = f"
    and "(\<forall>j<length stages. Name (stages ! j) \<noteq> f) \<longrightarrow> rewrittenFrom M f = f"
proof -
  have val: "\<And>v. M f = Some v \<Longrightarrow> \<exists>j\<le>k. Name (stages ! j) = f \<and> v = Itoa (int j)"
    unfolding M_def using known_lookup_value [OF k] by blast
  show first: "rewrittenFrom M f = f \<or>
            (f \<noteq> [] \<and> (\<exists>j\<le>k. Name (stages ! j) = f \<and> rewrittenFrom M f = Itoa (int j)))"
  proof (cases "f \<noteq> [] \<and> M f \<noteq> None")
    case True
    then obtain v where v: "M f = Some v" by blast
    then have "rewrittenFrom M f = v" using True by (simp add: rewrittenFrom_def)
    with val [OF v] True show ?thesis by blast
  next
    case False
    then have "rewrittenFrom M f = f" by (auto simp: rewrittenFrom_def)
    then show ?thesis ..
  qed
  show "f \<noteq> [] \<and> (\<exists>j\<le>k. Name (stages ! j) = f \<and> f \<noteq> Itoa (int j)) \<longrightarrow>
            (\<exists>j\<le>k. Name (stages ! j) = f \<and> rewrittenFrom M f = Itoa (int j))"
  proof
    assume a: "f \<noteq> [] \<and> (\<exists>j\<le>k. Name (stages ! j) = f \<and> f \<noteq> Itoa (int j))"
    then obtain j where j: "j \<le> k" "Name (stages ! j) = f" "f \<noteq> Itoa (int j)" by blast
    from j(2,3) have "Name (stages ! j) \<noteq> Itoa (int j)" by simp
    from known_lookup_found [OF k j(1) this]
    obtain j' where j': "j' \<le> k" "Name (stages ! j') = f" "M f = Some (Itoa (int j'))"
      unfolding M_def j(2) by blast
    then have "rewrittenFrom M f = Itoa (int j')" using a by (simp add: rewrittenFrom_def)
    with j'(1,2) show "\<exists>j\<le>k. Name (stages ! j) = f \<and> rewrittenFrom M f = Itoa (int j)" by blast
  qed
  show "(\<forall>j<length stages. Name (stages ! j) \<noteq> f) \<longrightarrow> rewrittenFrom M f = f"
  proof
    assume u: "\<forall>j<length stages. Name (stages ! j) \<noteq> f"
    from first show "rewrittenFrom M f = f"
    proof
      assume "f \<noteq> [] \<and> (\<exists>j\<le>k. Name (stages ! j) = f \<and> rewrittenFrom M f = Itoa (int j))"
      then obtain j where "j \<le> k" "Name (stages ! j) = f" by blast
      with k u show ?thesis by (metis le_less_trans)
    qed
  qed
  show "stage_names_ok stages \<Longrightarrow> (\<exists>n<length stages. f = Itoa (int n)) \<longrightarrow> rewrittenFrom M f = f"
  proof
    assume ok: "stage_names_ok stages" and "\<exists>n<length stages. f = Itoa (int n)"
    then obtain n where n: "n < length stages" "f = Itoa (int n)" by blast
    from first show "rewrittenFrom M f = f"
    proof
      assume "f \<noteq> [] \<and> (\<exists>j\<le>k. Name (stages ! j) = f \<and> rewrittenFrom M f = Itoa (int j))"
      then obtain j where j: "j \<le> k" "Name (stages ! j) = f" "rewrittenFrom M f = Itoa (int j)"
        by blast
      have jl: "j < length stages" using j(1) k by simp
      have "Name (stages ! j) = Itoa (int n)" using j(2) n(2) by simp
      from ok [unfolded stage_names_ok_def, rule_format, OF jl n(1) this]
      have "Name (stages ! j) = Itoa (int j)" .
      with j(2,3) show ?thesis by simp
    qed
  qed
qed

lemma Itoa_0: "Itoa 0 = ''0''"
  by (simp add: Itoa_def digitsOf.simps)

lemma Itoa_1: "Itoa 1 = ''1''"
  by (simp add: Itoa_def digitsOf.simps)

lemma stage_names_ok_idem:
  assumes "stage_names_ok stages"
  shows "ResolveStages (ResolveStages stages) = ResolveStages stages"
proof -
  have m: "map_ok (length stages) Map.empty" by (simp add: map_ok_def)
  have "names_ok_from 0 (length stages) stages \<longleftrightarrow> stage_names_ok stages"
    by (simp add: stage_names_ok_def names_ok_from_def)
  then have n: "names_ok_from 0 (length stages) stages" using assms by (rule iffD2)
  have l: "length stages = 0 + length stages" by simp
  show ?thesis
    unfolding ResolveStages_def by (rule resolveStagesFrom_idem [OF m n l])
qed

text \<open>
  C8, as stated, fails in its second part. The names are not all known when a copy is
  visited: the code makes one pass, and a copy that names a later stage is left as it is,
  although the table of all stages knows the name and the two-phase resolver of the
  specification rewrites it.
\<close>

theorem ResolveStages_later_name_counterexample:
  "stage_names_ok stages_fwd \<and>
   nameToIndexAfter 0 Map.empty stages_fwd ''b'' = Some ''1'' \<and>
   spec_ResolveStages stages_fwd =
     [\<lparr>Name = ''a'', BaseName = ''base'', Commands = [CopyCommand ''1'' [''/x'', ''/y'']]\<rparr>,
      \<lparr>Name = ''b'', BaseName = ''base'', Commands = []\<rparr>] \<and>
   ResolveStages stages_fwd =
     [\<lparr>Name = ''a'', BaseName = ''base'', Commands = [CopyCommand ''b'' [''/x'', ''/y'']]\<rparr>,
      \<lparr>Name = ''b'', BaseName = ''base'', Commands = []\<rparr>]"
proof -
  have ok: "stage_names_ok stages_fwd"
    by (rule letter_names_ok) (simp add: stages_fwd_def)
  have t: "nameToIndexAfter 0 Map.empty stages_fwd ''b'' = Some ''1''"
    by (simp add: stages_fwd_def Itoa_0 Itoa_1)
  have s: "spec_ResolveStages stages_fwd =
     [\<lparr>Name = ''a'', BaseName = ''base'', Commands = [CopyCommand ''1'' [''/x'', ''/y'']]\<rparr>,
      \<lparr>Name = ''b'', BaseName = ''base'', Commands = []\<rparr>]"
    by (simp add: spec_ResolveStages_def stages_fwd_def Let_def Itoa_0 Itoa_1)
  have r: "ResolveStages stages_fwd =
     [\<lparr>Name = ''a'', BaseName = ''base'', Commands = [CopyCommand ''b'' [''/x'', ''/y'']]\<rparr>,
      \<lparr>Name = ''b'', BaseName = ''base'', Commands = []\<rparr>]"
    by (simp add: ResolveStages_def stages_fwd_def Let_def Itoa_0 Itoa_1)
  show ?thesis using ok t s r by (intro conjI)
qed

text \<open>
  C8, amended. For a stage list in which no stage is named by the index string of another
  stage (as in every parsed list, whose names are empty or begin with a letter),
  \<open>ResolveStages\<close> is idempotent: a second run leaves every stage as the first run made
  it. The first run keeps names, base names and the commands other than copies; in a copy
  of stage \<open>k\<close> it rewrites a non-empty \<open>From\<close> that is the name of stage \<open>k\<close> or of
  an earlier stage to the index string of such a stage, and leaves every other \<open>From\<close>
  untouched: the name of a later stage only, a name of no stage (an external image), and
  an index string.
\<close>

theorem ResolveStages_idempotent:
  assumes "stage_names_ok stages"
  shows "ResolveStages (ResolveStages stages) = ResolveStages stages \<and>
     length (ResolveStages stages) = length stages \<and>
     (\<forall>k<length stages.
        Name (ResolveStages stages ! k) = Name (stages ! k) \<and>
        BaseName (ResolveStages stages ! k) = BaseName (stages ! k) \<and>
        length (Commands (ResolveStages stages ! k)) = length (Commands (stages ! k)) \<and>
        (\<forall>c<length (Commands (stages ! k)).
           (\<forall>f sd. Commands (stages ! k) ! c = CopyCommand f sd \<longrightarrow>
              (\<exists>f'. Commands (ResolveStages stages ! k) ! c = CopyCommand f' sd \<and>
                 (f' = f \<or> (f \<noteq> [] \<and> (\<exists>j\<le>k. Name (stages ! j) = f \<and> f' = Itoa (int j)))) \<and>
                 (f \<noteq> [] \<and> (\<exists>j\<le>k. Name (stages ! j) = f \<and> f \<noteq> Itoa (int j)) \<longrightarrow>
                    (\<exists>j\<le>k. Name (stages ! j) = f \<and> f' = Itoa (int j))) \<and>
                 ((\<exists>n<length stages. f = Itoa (int n)) \<longrightarrow> f' = f) \<and>
                 ((\<forall>j\<le>k. Name (stages ! j) \<noteq> f) \<longrightarrow> f' = f))) \<and>
           ((\<forall>f sd. Commands (stages ! k) ! c \<noteq> CopyCommand f sd) \<longrightarrow>
              Commands (ResolveStages stages ! k) ! c = Commands (stages ! k) ! c)))"
proof (intro conjI allI impI)
  show "ResolveStages (ResolveStages stages) = ResolveStages stages"
    using stage_names_ok_idem [OF assms] .
  show "length (ResolveStages stages) = length stages" by (simp add: ResolveStages_def)
next
  fix k assume k: "k < length stages"
  show "Name (ResolveStages stages ! k) = Name (stages ! k)"
    and "BaseName (ResolveStages stages ! k) = BaseName (stages ! k)"
    and "length (Commands (ResolveStages stages ! k)) = length (Commands (stages ! k))"
    by (simp_all add: ResolveStages_nth [OF k])
next
  fix k c f sd
  assume k: "k < length stages" and c: "c < length (Commands (stages ! k))"
    and cp: "Commands (stages ! k) ! c = CopyCommand f sd"
  define M where "M = nameToIndexAfter 0 Map.empty (take (Suc k) stages)"
  have "Commands (ResolveStages stages ! k) ! c = resolveCommand M (Commands (stages ! k) ! c)"
    using c by (simp add: ResolveStages_nth [OF k] M_def)
  then have r: "Commands (ResolveStages stages ! k) ! c = CopyCommand (rewrittenFrom M f) sd"
    by (simp only: cp resolveCommand_Copy)
  note p = rewrittenFrom_props [OF k, of f, folded M_def]
  show "\<exists>f'. Commands (ResolveStages stages ! k) ! c = CopyCommand f' sd \<and>
                 (f' = f \<or> (f \<noteq> [] \<and> (\<exists>j\<le>k. Name (stages ! j) = f \<and> f' = Itoa (int j)))) \<and>
                 (f \<noteq> [] \<and> (\<exists>j\<le>k. Name (stages ! j) = f \<and> f \<noteq> Itoa (int j)) \<longrightarrow>
                    (\<exists>j\<le>k. Name (stages ! j) = f \<and> f' = Itoa (int j))) \<and>
                 ((\<exists>n<length stages. f = Itoa (int n)) \<longrightarrow> f' = f) \<and>
                 ((\<forall>j\<le>k. Name (stages ! j) \<noteq> f) \<longrightarrow> f' = f)"
  proof (intro exI conjI)
    show "Commands (ResolveStages stages ! k) ! c = CopyCommand (rewrittenFrom M f) sd"
      by (rule r)
    show "rewrittenFrom M f = f \<or>
          (f \<noteq> [] \<and> (\<exists>j\<le>k. Name (stages ! j) = f \<and> rewrittenFrom M f = Itoa (int j)))"
      by (rule p(1))
    show "f \<noteq> [] \<and> (\<exists>j\<le>k. Name (stages ! j) = f \<and> f \<noteq> Itoa (int j)) \<longrightarrow>
          (\<exists>j\<le>k. Name (stages ! j) = f \<and> rewrittenFrom M f = Itoa (int j))"
      by (rule p(2))
    show "(\<exists>n<length stages. f = Itoa (int n)) \<longrightarrow> rewrittenFrom M f = f"
      by (rule p(3) [OF assms])
    show "(\<forall>j\<le>k. Name (stages ! j) \<noteq> f) \<longrightarrow> rewrittenFrom M f = f"
      using p(1) by blast
  qed
next
  fix k c
  assume k: "k < length stages" and c: "c < length (Commands (stages ! k))"
    and nc: "\<forall>f sd. Commands (stages ! k) ! c \<noteq> CopyCommand f sd"
  define M where "M = nameToIndexAfter 0 Map.empty (take (Suc k) stages)"
  have "Commands (ResolveStages stages ! k) ! c = resolveCommand M (Commands (stages ! k) ! c)"
    using c by (simp add: ResolveStages_nth [OF k] M_def)
  moreover have "resolveCommand M (Commands (stages ! k) ! c) = Commands (stages ! k) ! c"
    using nc by (cases "Commands (stages ! k) ! c") simp_all
  ultimately show "Commands (ResolveStages stages ! k) ! c = Commands (stages ! k) ! c" by simp
qed

lemma stage_names_ok_S3: "stage_names_ok stages_S3"
  by (rule letter_names_ok) (simp add: stages_S3_def)

lemma ResolveStages_S3:
  "ResolveStages stages_S3 =
     [\<lparr>Name = ''builder'', BaseName = ''base'', Commands = [OtherCommand ''RUN make'']\<rparr>,
      \<lparr>Name = [], BaseName = ''runtime'',
       Commands = [CopyCommand ''0'' [''/out/app'', ''/usr/bin/app''],
                   CopyCommand ''nginx:latest'' [''/etc/nginx'', ''/etc/nginx'']]\<rparr>]"
  by (simp add: ResolveStages_def stages_S3_def Let_def Itoa_0 Itoa_1)

theorem ResolveStages_idempotent_witness:
  "stage_names_ok stages_S3 \<and>
   ResolveStages stages_S3 =
     [\<lparr>Name = ''builder'', BaseName = ''base'', Commands = [OtherCommand ''RUN make'']\<rparr>,
      \<lparr>Name = [], BaseName = ''runtime'',
       Commands = [CopyCommand ''0'' [''/out/app'', ''/usr/bin/app''],
                   CopyCommand ''nginx:latest'' [''/etc/nginx'', ''/etc/nginx'']]\<rparr>] \<and>
   ResolveStages (ResolveStages stages_S3) = ResolveStages stages_S3"
proof -
  have "ResolveStages (ResolveStages stages_S3) = ResolveStages stages_S3"
    using ResolveStages_idempotent [OF stage_names_ok_S3] by (rule conjunct1)
  then show ?thesis using stage_names_ok_S3 ResolveStages_S3 by (intro conjI)
qed

text \<open>
  The condition on the names is needed: with a first stage named \<open>1\<close> the second run
  rewrites the index \<open>1\<close>, which the first run wrote, to \<open>0\<close>.
\<close>

lemma ResolveStages_foreign_index_name:
  "\<not> stage_names_ok stages_numeric \<and>
   ResolveStages (ResolveStages stages_numeric) \<noteq> ResolveStages stages_numeric"
proof -
  have r: "ResolveStages stages_numeric =
     [\<lparr>Name = ''1'', BaseName = ''base'', Commands = []\<rparr>,
      \<lparr>Name = ''b'', BaseName = ''base'', Commands = [CopyCommand ''1'' [''/x'', ''/y'']]\<rparr>]"
    by (simp add: ResolveStages_def stages_numeric_def Let_def Itoa_0 Itoa_1)
  have r2: "ResolveStages
     [\<lparr>Name = ''1'', BaseName = ''base'', Commands = []\<rparr>,
      \<lparr>Name = ''b'', BaseName = ''base'', Commands = [CopyCommand ''1'' [''/x'', ''/y'']]\<rparr>] =
     [\<lparr>Name = ''1'', BaseName = ''base'', Commands = []\<rparr>,
      \<lparr>Name = ''b'', BaseName = ''base'', Commands = [CopyCommand ''0'' [''/x'', ''/y'']]\<rparr>]"
    by (simp add: ResolveStages_def Let_def Itoa_0 Itoa_1)
  have "ResolveStages (ResolveStages stages_numeric) \<noteq> ResolveStages stages_numeric"
    by (simp add: r r2)
  moreover from this have "\<not> stage_names_ok stages_numeric"
    using stage_names_ok_idem [of stages_numeric] by (rule contrapos_nn)
  ultimately show ?thesis by (intro conjI)
qed

section \<open>Properties of the dependency analysis\<close>

lemma appendAll_Inl [simp]: "appendAll deps (Inl e, ba) = (Inl e, ba)"
  by (simp add: appendAll_def)

lemma appendAll_Inr [simp]: "appendAll deps (Inr css, ba) = (Inr (deps @ concat css), ba)"
  by (simp add: appendAll_def)

lemma appendAll_consCopy: "appendAll deps (consCopy cs r) = appendAll (deps @ cs) r"
  by (cases r; cases "fst r") (auto simp: consCopy_def)

lemma appendAll_appendCopies:
  "map_outcome (appendAll deps) (appendCopies css r) =
   map_outcome (appendAll (deps @ concat css)) r"
proof (cases r)
  case Panic
  then show ?thesis by (simp add: appendCopies_def)
next
  case (Return p)
  obtain x ba where p: "p = (x, ba)" by (cases p)
  show ?thesis using Return p by (cases x) (simp_all add: appendCopies_def)
qed

lemma depsCommands_stageCopies:
  "depsCommands E index cmds ba cfg deps = appendAll deps (stageCopies E index cmds ba cfg)"
proof (induction cmds arbitrary: ba cfg deps)
  case Nil
  show ?case by simp
next
  case (Cons cmd cmds)
  show ?case
  proof (cases cmd)
    case (EnvCommand env)
    show ?thesis
    proof (cases "UpdateConfigEnv E env cfg (ReplacementEnvs E ba (ConfigEnv E cfg))")
      case (Inl e)
      then show ?thesis by (simp add: EnvCommand)
    next
      case (Inr cfg2)
      then show ?thesis by (simp add: EnvCommand Cons.IH)
    qed
  next
    case (ArgCommand k v)
    show ?thesis by (simp add: ArgCommand Cons.IH)
  next
    case (CopyCommand f sd)
    show ?thesis
    proof (cases "f = Itoa index")
      case False
      then show ?thesis by (simp add: CopyCommand Cons.IH)
    next
      case True
      show ?thesis
      proof (cases "ResolveEnvironmentReplacementList E sd
                      (ReplacementEnvs E ba (ConfigEnv E cfg)) True")
        case (Inl e)
        then show ?thesis by (simp add: CopyCommand True copySources_def)
      next
        case (Inr substituted)
        show ?thesis
        proof (cases "ResolveSources E substituted (RootDir E)")
          case (Inl e)
          then show ?thesis by (simp add: CopyCommand True copySources_def Inr)
        next
          case expanded: (Inr expanded)
          have cs: "copySources E ba cfg sd = Inr (absolutize E expanded)"
            by (simp add: copySources_def Inr expanded)
          have "depsCommands E index (cmd # cmds) ba cfg deps =
                depsCommands E index cmds ba cfg (deps @ absolutize E expanded)"
            by (simp add: CopyCommand True Inr expanded)
          also have "\<dots> = appendAll (deps @ absolutize E expanded) (stageCopies E index cmds ba cfg)"
            by (rule Cons.IH)
          also have "\<dots> = appendAll deps (consCopy (absolutize E expanded)
                                 (stageCopies E index cmds ba cfg))"
            by (rule appendAll_consCopy [symmetric])
          also have "consCopy (absolutize E expanded) (stageCopies E index cmds ba cfg) =
                     stageCopies E index (cmd # cmds) ba cfg"
            by (simp add: CopyCommand True cs)
          finally show ?thesis .
        qed
      qed
    qed
  next
    case (OtherCommand c)
    show ?thesis by (simp add: OtherCommand Cons.IH)
  qed
qed

lemma depsStages_laterCopies:
  "depsStages E index stages img stageIndex rest ba deps =
   map_outcome (appendAll deps) (laterCopies E index stages img stageIndex rest ba)"
proof (induction rest arbitrary: stageIndex ba deps)
  case Nil
  show ?case by simp
next
  case (Cons stage rest)
  show ?case
  proof (cases "int stageIndex \<le> index")
    case True
    then show ?thesis by (simp add: Cons.IH)
  next
    case later: False
    show ?thesis
    proof (cases "index < 0 \<or> length stages \<le> nat index")
      case True
      then show ?thesis using later by simp
    next
      case inrange: False
      show ?thesis
      proof (cases "selectSourceImage E (BaseName stage) (Name (stages ! nat index)) img")
        case (Inl e)
        then show ?thesis using later inrange by simp
      next
        case (Inr sourceImage)
        show ?thesis
        proof (cases "ConfigFile E sourceImage")
          case (Inl e)
          then show ?thesis using later inrange Inr by simp
        next
          case cfg: (Inr cfg)
          obtain r ba' where new: "stageCopies E index (Commands stage) ba cfg = (r, ba')"
            by (cases "stageCopies E index (Commands stage) ba cfg")
          have acc: "depsCommands E index (Commands stage) ba cfg deps = appendAll deps (r, ba')"
            by (simp add: depsCommands_stageCopies new)
          show ?thesis
          proof (cases r)
            case (Inl e)
            then show ?thesis using later inrange Inr cfg new acc by simp
          next
            case css: (Inr css)
            have "depsStages E index stages img stageIndex (stage # rest) ba deps =
                  depsStages E index stages img (Suc stageIndex) rest ba' (deps @ concat css)"
              using later inrange Inr cfg acc css by simp
            also have "\<dots> = map_outcome (appendAll (deps @ concat css))
                           (laterCopies E index stages img (Suc stageIndex) rest ba')"
              by (rule Cons.IH)
            also have "\<dots> = map_outcome (appendAll deps)
                           (appendCopies css (laterCopies E index stages img (Suc stageIndex) rest ba'))"
              by (rule appendAll_appendCopies [symmetric])
            also have "appendCopies css (laterCopies E index stages img (Suc stageIndex) rest ba') =
                       laterCopies E index stages img stageIndex (stage # rest) ba"
              using later inrange Inr cfg new css by simp
            finally show ?thesis .
          qed
        qed
      qed
    qed
  qed
qed

lemma count_list_concat:
  "count_list (concat css) p = sum_list (map (\<lambda>cs. count_list cs p) css)"
  by (induction css) simp_all

text \<open>
  C2, as stated, fails: two copies of a later stage that name the same source make
  \<open>Dependencies\<close> return that path twice.
\<close>

theorem Dependencies_duplicates_counterexample:
  "Dependencies E_demo 0 stages_dup () [] = Return (Inr [''/out/app'', ''/out/app''], []) \<and>
   \<not> distinct [''/out/app'', ''/out/app'']"
  by (simp add: Dependencies_def stages_dup_def E_demo_def selectSourceImage_def
      absolutize_def Itoa_def digitsOf.simps)

text \<open>
  C2, amended. The list that \<open>Dependencies\<close> returns is not deduplicated: it is the
  concatenation, in stage order and instruction order, of the resolved sources of the
  matching copies of the later stages (and \<open>Dependencies\<close> fails or panics exactly when
  collecting them does). A path therefore occurs in the list as often as the copies
  name it: once for every occurrence in the contribution of a copy.
\<close>

theorem Dependencies_concatenates_matching_copies:
  "Dependencies E index stages img ba =
     map_outcome (appendAll []) (matchingCopies E index stages img ba) \<and>
   (\<forall>css ba'. matchingCopies E index stages img ba = Return (Inr css, ba') \<longrightarrow>
      Dependencies E index stages img ba = Return (Inr (concat css), ba') \<and>
      (\<forall>p. count_list (concat css) p = sum_list (map (\<lambda>cs. count_list cs p) css)))"
proof -
  have d: "Dependencies E index stages img ba =
     map_outcome (appendAll []) (matchingCopies E index stages img ba)"
    unfolding Dependencies_def matchingCopies_def by (rule depsStages_laterCopies)
  show ?thesis
  proof (intro conjI allI impI)
    show "Dependencies E index stages img ba =
      map_outcome (appendAll []) (matchingCopies E index stages img ba)" by (rule d)
  next
    fix css ba' assume "matchingCopies E index stages img ba = Return (Inr css, ba')"
    then show "Dependencies E index stages img ba = Return (Inr (concat css), ba')"
      by (simp add: d)
  next
    fix css :: "string list list" and ba' and p :: string
    show "count_list (concat css) p = sum_list (map (\<lambda>cs. count_list cs p) css)"
      by (rule count_list_concat)
  qed
qed

theorem Dependencies_concatenates_matching_copies_witness:
  "matchingCopies E_demo 0 stages_dup () [] = Return (Inr [[''/out/app''], [''/out/app'']], []) \<and>
   Dependencies E_demo 0 stages_dup () [] = Return (Inr (concat [[''/out/app''], [''/out/app'']]), []) \<and>
   count_list (concat [[''/out/app''], [''/out/app'']]) ''/out/app'' = 2"
proof -
  have m: "matchingCopies E_demo 0 stages_dup () [] =
           Return (Inr [[''/out/app''], [''/out/app'']], [])"
    by (simp add: matchingCopies_def stages_dup_def E_demo_def selectSourceImage_def
        copySources_def consCopy_def appendCopies_def absolutize_def Itoa_def digitsOf.simps)
  from Dependencies_concatenates_matching_copies [of E_demo 0 stages_dup "()" "[]"] m
  have "Dependencies E_demo 0 stages_dup () [] =
          Return (Inr (concat [[''/out/app''], [''/out/app'']]), []) \<and>
        (\<forall>p. count_list (concat [[''/out/app''], [''/out/app'']]) p =
             sum_list (map (\<lambda>cs. count_list cs p) [[''/out/app''], [''/out/app'']]))"
    by blast
  then show ?thesis using m by simp
qed

end
